theory Spec2Isabelle
  imports Complex_Main "HOL-Library.AList"
begin

section \<open>Data model of the match engine (src/main.py)\<close>

text \<open>
  The bot keeps three process-wide dictionaries: \<open>user_stats\<close> (career records, keyed by
  the decimal rendering \<open>str(uid)\<close> of the player id), \<open>lobbies\<close> and \<open>games\<close> (both keyed
  by the group id of the venue).  The handlers iterate over these dictionaries, so they are
  modelled as association lists in insertion order; \<open>AList.update\<close> overwrites an existing
  key in place and appends a new key at the end, as a Python dict does, and
  \<open>AList.delete\<close> is \<open>dict.pop(k, None)\<close>.  The per-player dictionaries inside a match
  (\<open>hp\<close>, \<open>move_choice\<close>, ...) are only ever looked up by key and are modelled as maps.
  A Python string is modelled as a \<open>string\<close>, one \<open>char\<close> per character.
\<close>

subsection \<open>Game constants\<close>

definition MAX_HP :: int where "MAX_HP = 200"
definition MAX_SPECIALS_PER_MATCH :: int where "MAX_SPECIALS_PER_MATCH = 4"
definition MAX_REVERSALS_PER_MATCH :: int where "MAX_REVERSALS_PER_MATCH = 3"
definition MAX_NAME_LENGTH :: nat where "MAX_NAME_LENGTH = 16"

record move_info =
  dmg :: int
  special :: bool

definition MOVES :: "(string \<times> move_info) list" where
  "MOVES =
    [(''punch'',    \<lparr>dmg = 5,  special = False\<rparr>),
     (''kick'',     \<lparr>dmg = 15, special = False\<rparr>),
     (''slam'',     \<lparr>dmg = 25, special = False\<rparr>),
     (''dropkick'', \<lparr>dmg = 30, special = False\<rparr>),
     (''suplex'',   \<lparr>dmg = 45, special = True\<rparr>),
     (''rko'',      \<lparr>dmg = 55, special = True\<rparr>),
     (''reversal'', \<lparr>dmg = 0,  special = False\<rparr>)]"

subsection \<open>Python helpers\<close>

text \<open>\<open>str(n)\<close> for an integer: its decimal digits, with a leading minus sign.\<close>

fun digits :: "nat \<Rightarrow> string" where
  "digits n =
     (if n < 10 then [char_of (48 + n)]
      else digits (n div 10) @ [char_of (48 + n mod 10)])"

declare digits.simps [simp del]

definition str :: "int \<Rightarrow> string" where
  "str i = (if i < 0 then CHR ''-'' # digits (nat (- i)) else digits (nat i))"

text \<open>Truthiness of an optional string: \<open>None\<close> and the empty string are false.\<close>

fun truthy :: "string option \<Rightarrow> bool" where
  "truthy None = False"
| "truthy (Some s) = (s \<noteq> [])"

subsection \<open>Career records, lobbies, matches\<close>

text \<open>
  Every place of the source that creates a career record writes its \<open>"name"\<close> key
  (\<open>None\<close> until a name is registered), so the record has an optional name.
\<close>

record career =
  name :: "string option"
  wins :: int
  losses :: int
  draws :: int
  specials_used :: int
  specials_successful :: int

record lobby =
  host :: int
  lobby_players :: "int list"
  message_id :: "int option"

text \<open>
  The match dictionary built by \<open>start_match\<close>.  The key \<open>"round"\<close> is optional: the last
  copy of \<open>start_match\<close> in the file (line 1538) does not write it, and
  \<open>send_group_move_prompt\<close> reads it with \<open>game.get("round", 1)\<close>.
\<close>

record game =
  players :: "int list"
  names :: "string \<rightharpoonup> string option"
  hp :: "int \<rightharpoonup> int"
  specials_left :: "int \<rightharpoonup> int"
  reversals_left :: "int \<rightharpoonup> int"
  last_move :: "int \<rightharpoonup> string option"
  move_choice :: "int \<rightharpoonup> string option"
  round_prompt_msg_ids :: "int list"
  round_key :: "int option"

record state =
  user_stats :: "(string \<times> career) list"
  lobbies :: "(int \<times> lobby) list"
  games :: "(int \<times> game) list"

text \<open>What a handler answers when it refuses; each constructor stands for one reply text.\<close>

datatype error =
    NotInGroup       \<comment> \<open>"Use /startgame in a group to open a lobby."\<close>
  | NotRegistered    \<comment> \<open>"You must register (DM /start) before ..."\<close>
  | AlreadyActive    \<comment> \<open>"A match is already active here. ..."\<close>
  | NoSuchLobby      \<comment> \<open>"This lobby no longer exists."\<close>
  | NotHost          \<comment> \<open>"Only the lobby host can cancel."\<close>
  | SelfJoin         \<comment> \<open>"You created the lobby."\<close>
  | KeyError         \<comment> \<open>an uncaught \<open>KeyError\<close> of a dictionary subscript\<close>

text \<open>\<open>str(uid) in user_stats and user_stats[str(uid)].get("name")\<close>\<close>

definition registered :: "state \<Rightarrow> int \<Rightarrow> bool" where
  "registered st uid =
     (case map_of (user_stats st) (str uid) of
        None \<Rightarrow> False
      | Some info \<Rightarrow> truthy (name info))"

definition in_games :: "state \<Rightarrow> int \<Rightarrow> bool" where
  "in_games st group_id = (map_of (games st) group_id \<noteq> None)"

definition in_lobbies :: "state \<Rightarrow> int \<Rightarrow> bool" where
  "in_lobbies st group_id = (map_of (lobbies st) group_id \<noteq> None)"

section \<open>Career statistics shown by \<open>cmd_stats\<close> and \<open>create_stats_image\<close>\<close>

text \<open>
  Both functions compute
  \<^verbatim>\<open>win_pct = round((wins/total)*100,1) if total else 0.0\<close> and
  \<^verbatim>\<open>sp_rate = round((sp_succ/sp_used)*100,1) if sp_used else 0.0\<close>.
  True division raises \<open>ZeroDivisionError\<close> on a zero divisor, which is a value of the
  model.  Floats are modelled by exact rationals; \<open>round1\<close> rounds to one decimal, ties to
  even.
\<close>

datatype py_error = ZeroDivisionError

definition true_div :: "int \<Rightarrow> int \<Rightarrow> py_error + rat" where
  "true_div a b = (if b = 0 then Inl ZeroDivisionError else Inr (of_int a / of_int b))"

definition round1 :: "rat \<Rightarrow> rat" where
  "round1 x =
     (let y = x * 10; f = \<lfloor>y\<rfloor>; d = y - of_int f
      in of_int (if d < 1/2 then f else if 1/2 < d then f + 1
                 else if even f then f else f + 1) / 10)"

definition pct :: "int \<Rightarrow> int \<Rightarrow> py_error + rat" where
  "pct part whole =
     (if whole \<noteq> 0
      then (case true_div part whole of
              Inl e \<Rightarrow> Inl e
            | Inr q \<Rightarrow> Inr (round1 (q * 100)))
      else Inr 0)"

definition win_pct :: "career \<Rightarrow> py_error + rat" where
  "win_pct info = (let total = wins info + losses info + draws info in pct (wins info) total)"

definition sp_rate :: "career \<Rightarrow> py_error + rat" where
  "sp_rate info = pct (specials_successful info) (specials_used info)"

section \<open>Lobby and match creation\<close>

text \<open>
  \<open>cmd_startgame\<close>, lines 1479-1501.  \<open>private\<close> is \<open>update.effective_chat.type == "private"\<close>;
  \<open>msg\<close> is the id of the lobby message when the send succeeded.
\<close>

definition cmd_startgame :: "state \<Rightarrow> bool \<Rightarrow> int \<Rightarrow> int \<Rightarrow> int option \<Rightarrow> error + state" where
  "cmd_startgame st private group_id uid msg =
     (if private then Inl NotInGroup
      else if \<not> registered st uid then Inl NotRegistered
      else if in_games st group_id then Inl AlreadyActive
      else
        let new = \<lparr>host = uid, lobby_players = [uid], message_id = None\<rparr>;
            new' = (case msg of None \<Rightarrow> new | Some m \<Rightarrow> new\<lparr>message_id := Some m\<rparr>)
        in Inr (st\<lparr>lobbies := AList.update group_id new' (lobbies st)\<rparr>))"

text \<open>
  \<open>send_group_move_prompt\<close>: records the id of the prompt message in the match (the
  background coroutine it starts is \<open>wait_and_resolve\<close>, modelled below).
\<close>

definition send_group_move_prompt :: "state \<Rightarrow> int \<Rightarrow> int option \<Rightarrow> state" where
  "send_group_move_prompt st group_id msg =
     (case map_of (games st) group_id of
        None \<Rightarrow> st
      | Some g \<Rightarrow>
          (case msg of
             None \<Rightarrow> st
           | Some m \<Rightarrow>
               st\<lparr>games := AList.update group_id
                     (g\<lparr>round_prompt_msg_ids := round_prompt_msg_ids g @ [m]\<rparr>) (games st)\<rparr>))"

text \<open>\<open>user_stats.get(str(p), {}).get("name", f"Player{p}")\<close>\<close>

definition name_or_default :: "state \<Rightarrow> int \<Rightarrow> string option" where
  "name_or_default st p =
     (case map_of (user_stats st) (str p) of
        None \<Rightarrow> Some (''Player'' @ str p)
      | Some info \<Rightarrow> name info)"

text \<open>The match dictionary of \<open>start_match\<close>; \<open>rk\<close> is the value of the optional \<open>"round"\<close> key.\<close>

definition new_game :: "state \<Rightarrow> int \<Rightarrow> int \<Rightarrow> int option \<Rightarrow> game" where
  "new_game st p1 p2 rk =
     \<lparr>players = [p1, p2],
      names = [str p1 \<mapsto> name_or_default st p1, str p2 \<mapsto> name_or_default st p2],
      hp = [p1 \<mapsto> MAX_HP, p2 \<mapsto> MAX_HP],
      specials_left = [p1 \<mapsto> MAX_SPECIALS_PER_MATCH, p2 \<mapsto> MAX_SPECIALS_PER_MATCH],
      reversals_left = [p1 \<mapsto> MAX_REVERSALS_PER_MATCH, p2 \<mapsto> MAX_REVERSALS_PER_MATCH],
      last_move = [p1 \<mapsto> None, p2 \<mapsto> None],
      move_choice = [p1 \<mapsto> None, p2 \<mapsto> None],
      round_prompt_msg_ids = [],
      round_key = rk\<rparr>"

text \<open>\<open>start_match\<close>, lines 366-388: the match is created with \<open>"round": 1\<close>.\<close>

definition start_match :: "state \<Rightarrow> int \<Rightarrow> int \<Rightarrow> int \<Rightarrow> int option \<Rightarrow> error + state" where
  "start_match st group_id p1 p2 msg =
     (if in_games st group_id then Inl AlreadyActive
      else
        let st' = st\<lparr>games := AList.update group_id (new_game st p1 p2 (Some 1)) (games st)\<rparr>
        in Inr (send_group_move_prompt st' group_id msg))"

text \<open>\<open>start_match\<close>, lines 1538-1558: the last copy in the file, without the \<open>"round"\<close> key.\<close>

definition start_match_1538 :: "state \<Rightarrow> int \<Rightarrow> int \<Rightarrow> int \<Rightarrow> int option \<Rightarrow> error + state" where
  "start_match_1538 st group_id p1 p2 msg =
     (if in_games st group_id then Inl AlreadyActive
      else
        let st' = st\<lparr>games := AList.update group_id (new_game st p1 p2 None) (games st)\<rparr>
        in Inr (send_group_move_prompt st' group_id msg))"

text \<open>\<open>round_no = game.get("round", 1)\<close>\<close>

definition round_no :: "game \<Rightarrow> int" where
  "round_no g = (case round_key g of None \<Rightarrow> 1 | Some r \<Rightarrow> r)"

text \<open>
  \<open>lobby_callback\<close>, lines 1503-1535, on callback data that splits into an action, a group
  id and a host id.  It answers with the refusal, if any, and the new state.  The
  subscript \<open>user_stats[str(host_id)]\<close> raises when the host has no career record, after the
  joiner was appended and before the lobby is removed.
\<close>

definition lobby_callback ::
  "state \<Rightarrow> string \<Rightarrow> int \<Rightarrow> int \<Rightarrow> int \<Rightarrow> int option \<Rightarrow> error option \<times> state" where
  "lobby_callback st action group_id host_id user_id msg =
     (case map_of (lobbies st) group_id of
        None \<Rightarrow> (Some NoSuchLobby, st\<lparr>lobbies := AList.delete group_id (lobbies st)\<rparr>)
      | Some lb \<Rightarrow>
          if host lb \<noteq> host_id
          then (Some NoSuchLobby, st\<lparr>lobbies := AList.delete group_id (lobbies st)\<rparr>)
          else if action = ''cancel_lobby''
          then (if user_id \<noteq> host_id then (Some NotHost, st)
                else (None, st\<lparr>lobbies := AList.delete group_id (lobbies st)\<rparr>))
          else if action = ''join''
          then (if user_id = host_id then (Some SelfJoin, st)
                else if \<not> registered st user_id then (Some NotRegistered, st)
                else
                  let st1 = st\<lparr>lobbies := AList.update group_id
                              (lb\<lparr>lobby_players := lobby_players lb @ [user_id]\<rparr>) (lobbies st)\<rparr>
                  in if map_of (user_stats st1) (str host_id) = None then (Some KeyError, st1)
                     else
                       let st2 = st1\<lparr>lobbies := AList.delete group_id (lobbies st1)\<rparr>
                       in (case start_match st2 group_id host_id user_id msg of
                             Inl e \<Rightarrow> (Some e, st2)
                           | Inr st3 \<Rightarrow> (None, st3)))
          else (None, st))"

section \<open>Registration and rename\<close>

text \<open>
  \<open>str.strip()\<close> removes leading and trailing whitespace; \<open>str.lower()\<close> maps the upper-case
  letters to lower case.  Both are given for the characters below 256.
\<close>

definition is_space :: "char \<Rightarrow> bool" where
  "is_space c = ((of_char c :: nat) \<in> {9, 10, 11, 12, 13, 28, 29, 30, 31, 32, 133, 160})"

definition strip :: "string \<Rightarrow> string" where
  "strip s = rev (dropWhile is_space (rev (dropWhile is_space s)))"

definition lower_char :: "char \<Rightarrow> char" where
  "lower_char c =
     (let n = (of_char c :: nat)
      in if (65 \<le> n \<and> n \<le> 90) \<or> (192 \<le> n \<and> n \<le> 222 \<and> n \<noteq> 215)
         then char_of (n + 32) else c)"

definition lower :: "string \<Rightarrow> string" where
  "lower s = map lower_char s"

definition fresh_career :: career where
  "fresh_career =
     \<lparr>name = None, wins = 0, losses = 0, draws = 0, specials_used = 0, specials_successful = 0\<rparr>"

text \<open>\<open>d.setdefault(k, v)\<close> on an association list.\<close>

definition setdefault :: "'k \<Rightarrow> 'v \<Rightarrow> ('k \<times> 'v) list \<Rightarrow> ('k \<times> 'v) list" where
  "setdefault k v al = (case map_of al k of None \<Rightarrow> AList.update k v al | Some _ \<Rightarrow> al)"

datatype text_reply =
    Ignored            \<comment> \<open>a text outside a private chat: no answer\<close>
  | Dm_only            \<comment> \<open>"Please DM me /start ...", "Use /startcareer in DM ..."\<close>
  | Name_empty         \<comment> \<open>"Name cannot be empty. Try again."\<close>
  | Name_too_long      \<comment> \<open>"Name too long ..."\<close>
  | Name_taken         \<comment> \<open>"That name is already taken ..."\<close>
  | Registered string  \<comment> \<open>"Registered as <name>! ..."\<close>
  | Already_registered \<comment> \<open>"You're already registered as ..."\<close>
  | Ask_name           \<comment> \<open>"Reply with your wrestler name ..."\<close>
  | In_match_hint      \<comment> \<open>"You're in a match. ..."\<close>
  | Dm_commands_hint   \<comment> \<open>"DM commands: ..."\<close>

text \<open>
  \<open>cmd_start\<close> and \<open>cmd_startcareer\<close>, lines 1363-1384.  The third component of the result is
  the flag \<open>context.user_data["awaiting_name"]\<close> of the user.
\<close>

definition cmd_start :: "state \<Rightarrow> bool \<Rightarrow> int \<Rightarrow> bool \<Rightarrow> text_reply \<times> state \<times> bool" where
  "cmd_start st private uid awaiting =
     (if \<not> private then (Dm_only, st, awaiting)
      else if registered st uid then (Already_registered, st, awaiting)
      else (Ask_name, st\<lparr>user_stats := setdefault (str uid) fresh_career (user_stats st)\<rparr>, True))"

definition cmd_startcareer :: "state \<Rightarrow> bool \<Rightarrow> int \<Rightarrow> bool \<Rightarrow> text_reply \<times> state \<times> bool" where
  "cmd_startcareer st private uid awaiting =
     (if \<not> private then (Dm_only, st, awaiting)
      else (Ask_name, st\<lparr>user_stats := setdefault (str uid) fresh_career (user_stats st)\<rparr>, True))"

text \<open>
  \<^verbatim>\<open>taken = any(info.get("name") and info["name"].lower() == name.lower()
              for k,info in user_stats.items() if k != uid_s)\<close>
\<close>

definition taken :: "state \<Rightarrow> string \<Rightarrow> string \<Rightarrow> bool" where
  "taken st uid_s nm =
     list_ex (\<lambda>(k, info). k \<noteq> uid_s \<and>
        (case name info of None \<Rightarrow> False | Some n \<Rightarrow> n \<noteq> [] \<and> lower n = lower nm))
       (user_stats st)"

text \<open>
  \<open>user_stats.setdefault(uid_s, {}); user_stats[uid_s]["name"] = name\<close> and the
  \<open>setdefault\<close> of the five counters.
\<close>

definition set_name :: "string \<Rightarrow> string \<Rightarrow> (string \<times> career) list \<Rightarrow> (string \<times> career) list" where
  "set_name uid_s nm us =
     (case map_of us uid_s of
        None \<Rightarrow> AList.update uid_s (fresh_career\<lparr>name := Some nm\<rparr>) us
      | Some r \<Rightarrow> AList.update uid_s (r\<lparr>name := Some nm\<rparr>) us)"

text \<open>
  \<open>private_text_handler\<close>, lines 1386-1416.  \<open>txt\<close> is \<open>update.message.text\<close>, which may be
  \<open>None\<close>; \<open>awaiting\<close> is the flag \<open>awaiting_name\<close> of the user.
\<close>

definition private_text_handler ::
  "state \<Rightarrow> bool \<Rightarrow> int \<Rightarrow> string option \<Rightarrow> bool \<Rightarrow> text_reply \<times> state \<times> bool" where
  "private_text_handler st private uid txt awaiting =
     (if \<not> private then (Ignored, st, awaiting)
      else
        let uid_s = str uid;
            text = strip (case txt of None \<Rightarrow> [] | Some t \<Rightarrow> t)
        in if awaiting
           then
             let nm = strip text
             in if nm = [] then (Name_empty, st, awaiting)
                else if length nm > MAX_NAME_LENGTH then (Name_too_long, st, awaiting)
                else if taken st uid_s nm then (Name_taken, st, awaiting)
                else (Registered nm, st\<lparr>user_stats := set_name uid_s nm (user_stats st)\<rparr>, False)
           else if list_ex (\<lambda>(k, g). uid \<in> set (players g)) (games st)
                then (In_match_hint, st, awaiting)
                else (Dm_commands_hint, st, awaiting))"

section \<open>Collecting the picks of a round: \<open>wait_and_resolve\<close>\<close>

text \<open>
  \<open>wait_and_resolve\<close> (lines 400-417) polls the match once per second, at most 45 times.
  While it sleeps, the other handlers run and may change the match: \<open>env waited g\<close> is the
  match after the sleep that follows the poll number \<open>waited\<close>.  The result says what made
  the coroutine call \<open>resolve_moves\<close>, after how many sleeps, which players were announced as
  defaulted, and the match it resolves.
\<close>

definition timeout :: nat where "timeout = 45"
definition interval :: nat where "interval = 1"

text \<open>\<open>game["move_choice"].get(p)\<close> is truthy.\<close>

definition has_pick :: "game \<Rightarrow> int \<Rightarrow> bool" where
  "has_pick g p = (case move_choice g p of None \<Rightarrow> False | Some c \<Rightarrow> truthy c)"

datatype trigger = BothPicked | TimedOut

function wait_loop :: "(nat \<Rightarrow> game \<Rightarrow> game) \<Rightarrow> nat \<Rightarrow> game \<Rightarrow> trigger \<times> nat \<times> game" where
  "wait_loop env waited g =
     (if waited < timeout
      then (if list_all (has_pick g) (players g) then (BothPicked, waited, g)
            else wait_loop env (waited + interval) (env waited g))
      else (TimedOut, waited, g))"
  by pat_completeness auto
termination
  by (relation "measure (\<lambda>(env, waited, g). timeout - waited)") (auto simp: interval_def)

declare wait_loop.simps [simp del]

text \<open>
  The loop over \<open>game["players"]\<close> after the deadline.  Sending the notice is a suspension
  point as well: \<open>send p g\<close> is the match when the send of the notice for \<open>p\<close> returns.
\<close>

fun default_missing :: "(int \<Rightarrow> game \<Rightarrow> game) \<Rightarrow> int list \<Rightarrow> game \<Rightarrow> int list \<times> game" where
  "default_missing send [] g = ([], g)"
| "default_missing send (p # ps) g =
     (if \<not> has_pick g p
      then
        let g1 = send p (g\<lparr>move_choice := (move_choice g)(p \<mapsto> Some ''punch'')\<rparr>);
            (ns, g2) = default_missing send ps g1
        in (p # ns, g2)
      else default_missing send ps g)"

definition wait_and_resolve ::
  "(nat \<Rightarrow> game \<Rightarrow> game) \<Rightarrow> (int \<Rightarrow> game \<Rightarrow> game) \<Rightarrow> game \<Rightarrow> trigger \<times> nat \<times> int list \<times> game" where
  "wait_and_resolve env send g =
     (case wait_loop env 0 g of
        (BothPicked, waited, g1) \<Rightarrow> (BothPicked, waited, [], g1)
      | (TimedOut, waited, g1) \<Rightarrow>
          (case default_missing send (players g1) g1 of
             (ns, g2) \<Rightarrow> (TimedOut, waited, ns, g2)))"

text \<open>
  For stating what the coroutine does: \<open>game_at env w g k\<close> is the match seen by the poll number
  \<open>w + k\<close> when the poll number \<open>w\<close> saw \<open>g\<close>; \<open>all_picked\<close> is the test of the poll; and
  \<open>only_records_picks send\<close> says that, while a notice is being sent, the other handlers
  leave the player list alone and take no pick away (a submission records a pick, and only
  the resolution of the round clears one).
\<close>

primrec game_at :: "(nat \<Rightarrow> game \<Rightarrow> game) \<Rightarrow> nat \<Rightarrow> game \<Rightarrow> nat \<Rightarrow> game" where
  "game_at env w g 0 = g"
| "game_at env w g (Suc k) = game_at env (Suc w) (env w g) k"

definition only_records_picks :: "(int \<Rightarrow> game \<Rightarrow> game) \<Rightarrow> bool" where
  "only_records_picks send =
     (\<forall>p g. players (send p g) = players g \<and> (\<forall>q. has_pick g q \<longrightarrow> has_pick (send p g) q))"

definition all_picked :: "game \<Rightarrow> bool" where
  "all_picked g = list_all (has_pick g) (players g)"

text \<open>
  An example round: player 7 picks \<open>kick\<close> during the third sleep, player 8 never picks.
\<close>

definition ex_env :: "nat \<Rightarrow> game \<Rightarrow> game" where
  "ex_env i g = (if i = 2 then g\<lparr>move_choice := (move_choice g)(7 \<mapsto> Some ''kick'')\<rparr> else g)"

definition ex_game :: game where
  "ex_game = new_game \<lparr>user_stats = [], lobbies = [], games = []\<rparr> 7 8 (Some 1)"

section \<open>The round resolver and the submission of moves\<close>

text \<open>
  The file calls \<open>resolve_moves\<close> and handles the lobby buttons, but neither \<open>resolve_moves\<close>
  nor the branch of the callback handler that takes a move button is part of it.  The
  definitions of this section follow the specification instead (sections 4.1, 4.3 and
  4.4), over the match dictionary and the table \<open>MOVES\<close> of the source.
\<close>

text \<open>
  Modelled from the spec: the accessor \<open>damageOf\<close> of the move catalog (section 4.1), which
  the file does not define; it reads the table \<open>MOVES\<close> of the source.  A move is always
  validated against the catalog before a lookup.
\<close>

definition damageOf :: "string \<Rightarrow> int" where
  "damageOf m = (case map_of MOVES m of None \<Rightarrow> 0 | Some i \<Rightarrow> dmg i)"

text \<open>
  Modelled from the spec: the accessor \<open>isSpecial\<close> of the move catalog (section 4.1), which
  the file does not define; it reads the flag \<open>special\<close> of the table \<open>MOVES\<close>.
\<close>

definition isSpecial :: "string \<Rightarrow> bool" where
  "isSpecial m = (case map_of MOVES m of None \<Rightarrow> False | Some i \<Rightarrow> special i)"

text \<open>
  Modelled from the spec: the accessor \<open>isReversal\<close> of the move catalog (section 4.1),
  which the file does not define; it is true only for the reversal.
\<close>

definition isReversal :: "string \<Rightarrow> bool" where
  "isReversal m = (m = ''reversal'')"

text \<open>
  Modelled from the spec: the damage rules of the missing \<open>resolve_moves\<close> (section 4.4,
  steps 1 and 2).  \<open>dealt own opp\<close> is the damage that the move \<open>own\<close> inflicts on the
  opponent, who picked \<open>opp\<close>: a reversal deals nothing, and a move that meets a reversal
  deals nothing to the reverser.
\<close>

definition dealt :: "string \<Rightarrow> string \<Rightarrow> int" where
  "dealt own opp = (if isReversal own \<or> isReversal opp then 0 else damageOf own)"

text \<open>
  Modelled from the spec: the reflection rule of the missing \<open>resolve_moves\<close> (section 4.4,
  step 2).  \<open>reflected own opp\<close> is the damage of the move \<open>own\<close> that an opposing reversal
  sends back onto the player who picked \<open>own\<close>.
\<close>

definition reflected :: "string \<Rightarrow> string \<Rightarrow> int" where
  "reflected own opp = (if isReversal opp \<and> \<not> isReversal own then damageOf own else 0)"

text \<open>
  Modelled from the spec: the damage applied to a player by the missing \<open>resolve_moves\<close>
  (section 4.4, step 3).  The player who picked \<open>own\<close> takes the damage of the opponent's
  move, or that of their own reflected move.
\<close>

definition damage_applied :: "string \<Rightarrow> string \<Rightarrow> int" where
  "damage_applied own opp = dealt opp own + reflected own opp"

text \<open>
  Modelled from the spec: the resource accounting of the missing \<open>resolve_moves\<close> (section
  4.4, step 4) in the match.  \<open>spend c p m\<close> takes one from the counter of player \<open>p\<close> when
  \<open>c\<close> holds.
\<close>

definition spend :: "bool \<Rightarrow> int \<Rightarrow> (int \<rightharpoonup> int) \<Rightarrow> (int \<rightharpoonup> int)" where
  "spend c p m = (case m p of None \<Rightarrow> m | Some n \<Rightarrow> if c then m(p \<mapsto> n - 1) else m)"

text \<open>
  Modelled from the spec: the resource accounting of the missing \<open>resolve_moves\<close> (section
  4.4, step 4) in the career record.  A special move is counted as used, and as successful
  only if it dealt damage to the opponent.
\<close>

definition account_special :: "string \<Rightarrow> string \<Rightarrow> career \<Rightarrow> career" where
  "account_special own opp c =
     (if isSpecial own
      then c\<lparr>specials_used := specials_used c + 1,
             specials_successful := specials_successful c + (if dealt own opp \<noteq> 0 then 1 else 0)\<rparr>
      else c)"

text \<open>
  Modelled from the spec: the effect of the missing \<open>resolve_moves\<close> on the match
  (steps 3 to 6) for the players \<open>a\<close> and \<open>b\<close> with the picks \<open>mA\<close> and \<open>mB\<close> and the hit
  points \<open>hA\<close> and \<open>hB\<close>.  Both new pools are computed from the old ones.
\<close>

definition apply_round :: "game \<Rightarrow> int \<Rightarrow> int \<Rightarrow> string \<Rightarrow> string \<Rightarrow> int \<Rightarrow> int \<Rightarrow> game" where
  "apply_round g a b mA mB hA hB =
     g\<lparr>hp := (hp g)(a \<mapsto> max 0 (hA - damage_applied mA mB),
                      b \<mapsto> max 0 (hB - damage_applied mB mA)),
       specials_left := spend (isSpecial mB) b (spend (isSpecial mA) a (specials_left g)),
       reversals_left := spend (isReversal mB) b (spend (isReversal mA) a (reversals_left g)),
       last_move := (last_move g)(a \<mapsto> Some mA, b \<mapsto> Some mB),
       move_choice := (move_choice g)(a \<mapsto> None, b \<mapsto> None),
       round_key := Some (round_no g + 1)\<rparr>"

text \<open>
  Modelled from the spec: the results of the outcome check of the missing \<open>resolve_moves\<close>
  (section 4.4, step 7); \<open>Win\<close> carries the winner and then the loser.
\<close>

datatype outcome = Continue | Draw | Win int int

text \<open>
  Modelled from the spec: a career delta of the missing \<open>resolve_moves\<close> (section 4.4, steps
  4 and 8), written to the record of player \<open>p\<close>; the records are keyed by \<open>str(p)\<close>, as in
  the source.
\<close>

definition bump :: "(career \<Rightarrow> career) \<Rightarrow> int \<Rightarrow> (string \<times> career) list \<Rightarrow> (string \<times> career) list" where
  "bump f p us = AList.map_entry (str p) f us"

text \<open>
  Modelled from the spec: the outcome check and the finalization of the missing
  \<open>resolve_moves\<close> (section 4.4, steps 7 and 8), for the match \<open>g'\<close> after the round and the
  new hit points \<open>hA'\<close> and \<open>hB'\<close>.
\<close>

definition finish :: "state \<Rightarrow> int \<Rightarrow> game \<Rightarrow> int \<Rightarrow> int \<Rightarrow> int \<Rightarrow> int \<Rightarrow> outcome \<times> state" where
  "finish st venue g' a b hA' hB' =
     (if hA' \<le> 0 \<and> hB' \<le> 0
      then (Draw,
            st\<lparr>user_stats := bump (\<lambda>c. c\<lparr>draws := draws c + 1\<rparr>) b
                               (bump (\<lambda>c. c\<lparr>draws := draws c + 1\<rparr>) a (user_stats st)),
               games := AList.delete venue (games st)\<rparr>)
      else if hA' \<le> 0
      then (Win b a,
            st\<lparr>user_stats := bump (\<lambda>c. c\<lparr>wins := wins c + 1\<rparr>) b
                               (bump (\<lambda>c. c\<lparr>losses := losses c + 1\<rparr>) a (user_stats st)),
               games := AList.delete venue (games st)\<rparr>)
      else if hB' \<le> 0
      then (Win a b,
            st\<lparr>user_stats := bump (\<lambda>c. c\<lparr>wins := wins c + 1\<rparr>) a
                               (bump (\<lambda>c. c\<lparr>losses := losses c + 1\<rparr>) b (user_stats st)),
               games := AList.delete venue (games st)\<rparr>)
      else (Continue, st\<lparr>games := AList.update venue g' (games st)\<rparr>))"

text \<open>
  Modelled from the spec: the recorded pick of a player, which the missing \<open>resolve_moves\<close>
  reads (section 4.4): \<open>move_choice\<close> has a non-empty move for the player.
\<close>

definition pick :: "game \<Rightarrow> int \<Rightarrow> string option" where
  "pick g p = (case move_choice g p of Some (Some m) \<Rightarrow> if m = [] then None else Some m | _ \<Rightarrow> None)"

text \<open>
  Modelled from the spec: the missing \<open>resolve_moves\<close> (section 4.4).  It needs a match of
  two players with both picks recorded; \<open>wait_and_resolve\<close> calls it in just that state.
\<close>

definition resolve_moves :: "state \<Rightarrow> int \<Rightarrow> (outcome \<times> state) option" where
  "resolve_moves st venue =
     (case map_of (games st) venue of
        None \<Rightarrow> None
      | Some g \<Rightarrow>
          (case players g of
             [a, b] \<Rightarrow>
               (case (pick g a, pick g b, hp g a, hp g b) of
                  (Some mA, Some mB, Some hA, Some hB) \<Rightarrow>
                    let st1 = st\<lparr>user_stats := bump (account_special mB mA) b
                                   (bump (account_special mA mB) a (user_stats st))\<rparr>
                    in Some (finish st1 venue (apply_round g a b mA mB hA hB) a b
                               (max 0 (hA - damage_applied mA mB))
                               (max 0 (hB - damage_applied mB mA)))
                | _ \<Rightarrow> None)
           | _ \<Rightarrow> None))"

text \<open>
  Modelled from the spec: a match played round by round, for stating a property of every
  point of a match; each element of the list is the pair of picks of one round.
\<close>

fun play :: "game \<Rightarrow> int \<Rightarrow> int \<Rightarrow> (string \<times> string) list \<Rightarrow> game" where
  "play g a b [] = g"
| "play g a b ((mA, mB) # rounds) =
     (case (hp g a, hp g b) of
        (Some hA, Some hB) \<Rightarrow> play (apply_round g a b mA mB hA hB) a b rounds
      | _ \<Rightarrow> g)"

text \<open>
  Modelled from the spec: the refusals of \<open>submitMove\<close> (sections 4.3 and 7), the missing
  branch of the callback handler for a move button.
\<close>

datatype submit_error = NoSuchMatch | NotAParticipant | UnknownMove | AlreadyResolving | MoveRestricted

text \<open>
  Modelled from the spec: the restriction notice of the missing \<open>submitMove\<close> (section 4.3):
  the short private message of \<open>send_short_restriction_dm\<close> to the player, and a line in
  the group.
\<close>

datatype notice = Restriction_dm int | Restriction_group int

text \<open>
  Modelled from the spec: the restrictions of the missing \<open>submitMove\<close> (section 4.3): the
  move repeats the player's last resolved move and is a special or the reversal, or the
  counter that the move needs is at 0.
\<close>

definition restricted :: "game \<Rightarrow> int \<Rightarrow> string \<Rightarrow> bool" where
  "restricted g p m =
     ((last_move g p = Some (Some m) \<and> (isSpecial m \<or> isReversal m)) \<or>
      (isSpecial m \<and> specials_left g p = Some 0) \<or>
      (isReversal m \<and> reversals_left g p = Some 0))"

text \<open>
  Modelled from the spec: \<open>submitMove\<close> (section 4.3), the missing branch of the callback
  handler for a move button.  \<open>resolving\<close> says that the round is being resolved.  A
  refused pick changes nothing; an accepted one overwrites the pick of the player.
\<close>

definition submitMove ::
  "state \<Rightarrow> bool \<Rightarrow> int \<Rightarrow> int \<Rightarrow> string \<Rightarrow> (submit_error + state) \<times> notice list" where
  "submitMove st resolving venue playerId moveId =
     (case map_of (games st) venue of
        None \<Rightarrow> (Inl NoSuchMatch, [])
      | Some g \<Rightarrow>
          if playerId \<notin> set (players g) then (Inl NotAParticipant, [])
          else if map_of MOVES moveId = None then (Inl UnknownMove, [])
          else if resolving then (Inl AlreadyResolving, [])
          else if restricted g playerId moveId
          then (Inl MoveRestricted, [Restriction_dm playerId, Restriction_group venue])
          else (Inr (st\<lparr>games := AList.update venue
                       (g\<lparr>move_choice := (move_choice g)(playerId \<mapsto> Some moveId)\<rparr>) (games st)\<rparr>),
                []))"

text \<open>
  Example matches: the last round of a match in which both players are down to 5 hit
  points and pick \<open>punch\<close>, and a match in which player 7 used \<open>rko\<close> in the round before.
\<close>

definition ex_last_round :: game where
  "ex_last_round =
     ex_game\<lparr>hp := [7 \<mapsto> 5, 8 \<mapsto> 5],
             move_choice := [7 \<mapsto> Some ''punch'', 8 \<mapsto> Some ''punch'']\<rparr>"

definition ex_after_rko :: game where
  "ex_after_rko = ex_game\<lparr>last_move := [7 \<mapsto> Some ''rko'', 8 \<mapsto> Some ''punch'']\<rparr>"

section \<open>The handlers under the event loop\<close>

text \<open>
  The handlers are coroutines of one event loop: between two \<open>await\<close>s a handler runs
  alone, and at an \<open>await\<close> any other handler may run.  A step is one such uninterrupted
  piece of work on the registries.  Besides the handlers run from start to end, the steps
  are the pieces that follow an \<open>await\<close>:
  \<^item> \<open>startgame_sent\<close>: \<open>cmd_startgame\<close> stores the id of the lobby message, in the lobby
    that the venue has by then (a \<open>KeyError\<close> when there is none changes nothing);
    \<open>cmd_startgame\<close> with no message id is its piece before the \<open>await\<close>;
  \<^item> \<open>lobby_popped\<close>: \<open>lobby_callback\<close> removes the lobby after it has answered that the
    lobby is cancelled or gone;
  \<^item> \<open>join_appended\<close>, \<open>join_started\<close>: \<open>lobby_callback\<close> appends the joiner, edits the
    lobby message, and only then removes the lobby and calls \<open>start_match\<close>, with the ids
    it read before;
  \<^item> \<open>prompt_sent\<close>: \<open>send_group_move_prompt\<close> stores the id of the prompt.

  The functions that record a pick, resolve a round and end a match are not part of the
  file.  Modelled from the spec: \<open>submitMove\<close> and \<open>resolve_moves\<close> as defined above
  (\<open>submitted\<close>, \<open>resolved\<close>); and, for the forfeit and the end of a match on command,
  which the specification leaves to the chat layer, whatever changes the match of a venue
  in place (\<open>match_changed\<close>), removes it (\<open>match_removed\<close>) or writes career records
  (\<open>careers_saved\<close>).
\<close>

inductive step :: "state \<Rightarrow> state \<Rightarrow> bool" where
  startgame:
    "cmd_startgame st private group_id uid msg = Inr st' \<Longrightarrow> step st st'"
| startgame_sent:
    "step st (st\<lparr>lobbies := AList.map_entry group_id (\<lambda>lb. lb\<lparr>message_id := Some m\<rparr>) (lobbies st)\<rparr>)"
| lobby_cb:
    "lobby_callback st action group_id host_id user_id msg = (e, st') \<Longrightarrow> step st st'"
| lobby_popped:
    "step st (st\<lparr>lobbies := AList.delete group_id (lobbies st)\<rparr>)"
| join_appended:
    "map_of (lobbies st) group_id = Some lb \<Longrightarrow>
     step st (st\<lparr>lobbies := AList.update group_id
                  (lb\<lparr>lobby_players := lobby_players lb @ [user_id]\<rparr>) (lobbies st)\<rparr>)"
| join_started:
    "start_match (st\<lparr>lobbies := AList.delete group_id (lobbies st)\<rparr>) group_id p1 p2 msg = Inr st' \<Longrightarrow>
     step st st'"
| join_started_1538:
    "start_match_1538 (st\<lparr>lobbies := AList.delete group_id (lobbies st)\<rparr>) group_id p1 p2 msg = Inr st' \<Longrightarrow>
     step st st'"
| prompt_sent:
    "step st (send_group_move_prompt st group_id msg)"
| start_cmd:
    "cmd_start st private uid awaiting = (r, st', awaiting') \<Longrightarrow> step st st'"
| startcareer_cmd:
    "cmd_startcareer st private uid awaiting = (r, st', awaiting') \<Longrightarrow> step st st'"
| private_text:
    "private_text_handler st private uid mtext awaiting = (r, st', awaiting') \<Longrightarrow> step st st'"
| submitted:
    "submitMove st resolving group_id uid move = (Inr st', ns) \<Longrightarrow> step st st'"
| resolved:
    "resolve_moves st group_id = Some (out, st') \<Longrightarrow> step st st'"
| match_changed:
    "map_of (games st) group_id = Some g \<Longrightarrow>
     step st (st\<lparr>games := AList.update group_id g' (games st)\<rparr>)"
| match_removed:
    "step st (st\<lparr>games := AList.delete group_id (games st)\<rparr>)"
| careers_saved:
    "step st (st\<lparr>user_stats := us\<rparr>)"

text \<open>The bot starts with no lobby and no match; the career records come from the stats file.\<close>

inductive reachable :: "state \<Rightarrow> bool" where
  init: "lobbies st = [] \<Longrightarrow> games st = [] \<Longrightarrow> reachable st"
| next_state: "reachable st \<Longrightarrow> step st st' \<Longrightarrow> reachable st'"

text \<open>
  No venue key occurs twice in either registry, and no venue has both a lobby and a match.
\<close>

definition venue_inv :: "state \<Rightarrow> bool" where
  "venue_inv st =
     (distinct (map fst (games st)) \<and> distinct (map fst (lobbies st)) \<and>
      (\<forall>v. \<not> (in_lobbies st v \<and> in_games st v)))"

text \<open>An example: two registered players.\<close>

definition ex_state :: state where
  "ex_state =
     \<lparr>user_stats = [(''7'', fresh_career\<lparr>name := Some ''Rocky''\<rparr>),
                    (''8'', fresh_career\<lparr>name := Some ''Apollo''\<rparr>)],
      lobbies = [], games = []\<rparr>"

section \<open>Verified properties\<close>

subsection \<open>Helper facts\<close>

subsubsection \<open>Lookups\<close>

lemma map_of_update_same: "map_of (AList.update k v al) k = Some v"
  by (simp add: update_conv')

lemma pct_no_zero_division: "pct a b \<noteq> Inl ZeroDivisionError"
  by (simp add: pct_def true_div_def)

subsubsection \<open>Stripping and lower case\<close>

lemma last_dropWhile: "dropWhile P xs \<noteq> [] \<Longrightarrow> last (dropWhile P xs) = last xs"
proof -
  assume a: "dropWhile P xs \<noteq> []"
  have "last xs = last (takeWhile P xs @ dropWhile P xs)" by simp
  also have "\<dots> = last (dropWhile P xs)" using a by (rule last_appendR)
  finally show ?thesis by simp
qed

lemma strip_no_outer_space:
  assumes "strip s \<noteq> []"
  shows "\<not> is_space (hd (strip s))"
proof -
  let ?t = "dropWhile is_space s"
  let ?u = "dropWhile is_space (rev ?t)"
  from assms have u: "?u \<noteq> []" by (simp add: strip_def)
  have t: "?t \<noteq> []"
  proof
    assume e: "?t = []"
    have "dropWhile is_space (rev []) = []" by simp
    with u show False unfolding e by simp
  qed
  have "hd (strip s) = last ?u" using u by (simp add: strip_def hd_rev)
  also have "\<dots> = last (rev ?t)" using u by (rule last_dropWhile)
  also have "\<dots> = hd ?t" using t by (simp add: last_rev)
  finally show ?thesis using t by (simp add: hd_dropWhile)
qed

lemma strip_idem: "strip (strip s) = strip s"
proof -
  let ?u = "dropWhile is_space (rev (dropWhile is_space s))"
  have s: "strip s = rev ?u" by (simp add: strip_def)
  have "dropWhile is_space (strip s) = strip s"
    using strip_no_outer_space [of s] by (auto simp: dropWhile_eq_self_iff)
  then have "strip (strip s) = rev (dropWhile is_space (rev (strip s)))"
    by (simp add: strip_def)
  also have "\<dots> = rev (dropWhile is_space ?u)" by (simp add: s)
  also have "\<dots> = rev ?u" by simp
  finally show ?thesis by (simp add: s)
qed

lemma strip_Nil: "strip [] = []"
  by (simp add: strip_def)

lemma lower_Nil_iff: "lower n = lower nm \<Longrightarrow> (n = []) = (nm = [])"
proof -
  assume "lower n = lower nm"
  then have "length (lower n) = length (lower nm)" by simp
  then have "length n = length nm" by (simp add: lower_def)
  then show ?thesis by (cases n; cases nm) simp_all
qed

lemma taken_iff:
  assumes ne: "nm \<noteq> []"
  shows "taken st uid_s nm =
     (\<exists>k info n. (k, info) \<in> set (user_stats st) \<and> k \<noteq> uid_s \<and>
                  name info = Some n \<and> lower n = lower nm)"
proof
  assume "taken st uid_s nm"
  then obtain x where x: "x \<in> set (user_stats st)"
    and c: "case x of (k, info) \<Rightarrow> k \<noteq> uid_s \<and>
        (case name info of None \<Rightarrow> False | Some n \<Rightarrow> n \<noteq> [] \<and> lower n = lower nm)"
    unfolding taken_def list_ex_iff by blast
  obtain k info where xk: "x = (k, info)" by (cases x)
  from c xk have k: "k \<noteq> uid_s" by simp
  from c xk obtain n where "name info = Some n" "lower n = lower nm"
    by (cases "name info") simp_all
  with x xk k show "\<exists>k info n. (k, info) \<in> set (user_stats st) \<and> k \<noteq> uid_s \<and>
                  name info = Some n \<and> lower n = lower nm"
    by blast
next
  assume "\<exists>k info n. (k, info) \<in> set (user_stats st) \<and> k \<noteq> uid_s \<and>
                  name info = Some n \<and> lower n = lower nm"
  then obtain k info n where m: "(k, info) \<in> set (user_stats st)" "k \<noteq> uid_s"
      "name info = Some n" "lower n = lower nm" by blast
  from lower_Nil_iff [OF m(4)] ne have n: "n \<noteq> []" by simp
  have "case (k, info) of (k, info) \<Rightarrow> k \<noteq> uid_s \<and>
        (case name info of None \<Rightarrow> False | Some n \<Rightarrow> n \<noteq> [] \<and> lower n = lower nm)"
    using m(2,3,4) n by simp
  with m(1) show "taken st uid_s nm"
    unfolding taken_def list_ex_iff by (rule bexI [rotated])
qed

lemma map_of_set_name:
  "\<exists>info. map_of (set_name k nm us) k = Some info \<and> name info = Some nm"
  by (simp add: set_name_def update_conv' split: option.splits)

lemma map_of_set_name_other:
  "k' \<noteq> k \<Longrightarrow> map_of (set_name k nm us) k' = map_of us k'"
  by (simp add: set_name_def update_conv' split: option.splits)

lemma private_text_handler_awaiting:
  "private_text_handler st True uid mtext True =
     (let nm = strip (case mtext of None \<Rightarrow> [] | Some t \<Rightarrow> t)
      in if nm = [] then (Name_empty, st, True)
         else if 16 < length nm then (Name_too_long, st, True)
         else if taken st (str uid) nm then (Name_taken, st, True)
         else (Registered nm, st\<lparr>user_stats := set_name (str uid) nm (user_stats st)\<rparr>, False))"
  by (simp add: private_text_handler_def Let_def strip_idem MAX_NAME_LENGTH_def)

lemma str_8: "str 8 = ''8''"
  by code_simp

lemma ex9_eval:
  "fst (private_text_handler
     \<lparr>user_stats = [(''8'', fresh_career\<lparr>name := Some ''Rocky''\<rparr>)], lobbies = [], games = []\<rparr>
     True 9 (Some ''  Ali '') True) = Registered ''Ali''"
  by code_simp

subsubsection \<open>The polling loop and the defaults\<close>

lemma wait_loop_spec:
  "w \<le> timeout \<Longrightarrow> wait_loop env w g = (trg, w', g') \<Longrightarrow>
   \<exists>k. w' = w + k \<and> g' = game_at env w g k \<and>
       (\<forall>j<k. \<not> all_picked (game_at env w g j)) \<and>
       (trg = BothPicked \<longrightarrow> w' < timeout \<and> all_picked g') \<and>
       (trg = TimedOut \<longrightarrow> w' = timeout)"
proof (induction env w g rule: wait_loop.induct)
  case (1 env waited g)
  show ?case
  proof (cases "waited < timeout")
    case False
    then have "wait_loop env waited g = (TimedOut, waited, g)"
      by (subst wait_loop.simps) simp
    with "1.prems" False have "trg = TimedOut" "w' = waited" "g' = g" "waited = timeout"
      by simp_all
    then show ?thesis by (intro exI [of _ 0]) simp
  next
    case True
    show ?thesis
    proof (cases "list_all (has_pick g) (players g)")
      case all: True
      with True have "wait_loop env waited g = (BothPicked, waited, g)"
        by (subst wait_loop.simps) simp
      with "1.prems" have "trg = BothPicked" "w' = waited" "g' = g"
        by simp_all
      with True all show ?thesis by (intro exI [of _ 0]) (simp add: all_picked_def)
    next
      case nall: False
      with True have "wait_loop env waited g = wait_loop env (Suc waited) (env waited g)"
        by (subst wait_loop.simps) (simp add: interval_def)
      with "1.prems" have rec: "wait_loop env (Suc waited) (env waited g) = (trg, w', g')"
        by simp
      from True have le: "Suc waited \<le> timeout" by simp
      from "1.IH" [OF True nall] le rec
      obtain k where k: "w' = Suc waited + k" "g' = game_at env (Suc waited) (env waited g) k"
        "\<forall>j<k. \<not> all_picked (game_at env (Suc waited) (env waited g) j)"
        "trg = BothPicked \<longrightarrow> w' < timeout \<and> all_picked g'"
        "trg = TimedOut \<longrightarrow> w' = timeout"
        by (auto simp: interval_def)
      have "\<forall>j<Suc k. \<not> all_picked (game_at env waited g j)"
      proof (intro allI impI)
        fix j assume "j < Suc k"
        then show "\<not> all_picked (game_at env waited g j)"
          using k(3) nall by (cases j) (simp_all add: all_picked_def)
      qed
      with k show ?thesis by (intro exI [of _ "Suc k"]) simp
    qed
  qed
qed

lemma has_pick_punch: "has_pick (g\<lparr>move_choice := (move_choice g)(p \<mapsto> Some ''punch'')\<rparr>) p"
  by (simp add: has_pick_def)

lemma has_pick_punch_other:
  "has_pick g q \<Longrightarrow> has_pick (g\<lparr>move_choice := (move_choice g)(p \<mapsto> Some ''punch'')\<rparr>) q"
  by (simp add: has_pick_def)

lemma default_missing_spec:
  assumes "only_records_picks send"
  shows "default_missing send ps g = (ns, g') \<Longrightarrow>
     players g' = players g \<and> (\<forall>q. has_pick g q \<longrightarrow> has_pick g' q) \<and>
     (\<forall>p \<in> set ps. has_pick g' p) \<and>
     set ns \<subseteq> {p \<in> set ps. \<not> has_pick g p} \<and> distinct ns"
proof (induction ps arbitrary: g ns g')
  case Nil
  then show ?case by simp
next
  case (Cons p ps)
  show ?case
  proof (cases "has_pick g p")
    case True
    with Cons.prems have "default_missing send ps g = (ns, g')" by simp
    from Cons.IH [OF this] True show ?thesis by auto
  next
    case False
    let ?g0 = "g\<lparr>move_choice := (move_choice g)(p \<mapsto> Some ''punch'')\<rparr>"
    let ?g1 = "send p ?g0"
    obtain ms g2 where r: "default_missing send ps ?g1 = (ms, g2)" by (cases "default_missing send ps ?g1")
    with False Cons.prems have eq: "ns = p # ms" "g' = g2" by (simp_all add: Let_def)
    from assms have pl: "players ?g1 = players g"
      and keep: "\<And>q. has_pick ?g0 q \<Longrightarrow> has_pick ?g1 q"
      by (simp_all add: only_records_picks_def)
    have p1: "has_pick ?g1 p" by (rule keep) (rule has_pick_punch)
    have old: "\<And>q. has_pick g q \<Longrightarrow> has_pick ?g1 q" by (rule keep) (rule has_pick_punch_other)
    from Cons.IH [OF r] have ih: "players g2 = players ?g1" "\<And>q. has_pick ?g1 q \<Longrightarrow> has_pick g2 q"
      "\<And>q. q \<in> set ps \<Longrightarrow> has_pick g2 q" "set ms \<subseteq> {q \<in> set ps. \<not> has_pick ?g1 q}" "distinct ms"
      by auto
    from ih(4) p1 have "p \<notin> set ms" by auto
    moreover from ih(4) old have "set ms \<subseteq> {q \<in> set ps. \<not> has_pick g q}" by auto
    ultimately show ?thesis using eq ih pl p1 old False by auto
  qed
qed

lemma default_missing_exact:
  "default_missing (\<lambda>p g. g) ps g = (ns, g') \<Longrightarrow>
     set ns = {p \<in> set ps. \<not> has_pick g p} \<and>
     g' = g\<lparr>move_choice := (\<lambda>q. if q \<in> set ps \<and> \<not> has_pick g q
                                then Some (Some ''punch'') else move_choice g q)\<rparr>"
proof (induction ps arbitrary: g ns g')
  case Nil
  then show ?case by simp
next
  case (Cons p ps)
  show ?case
  proof (cases "has_pick g p")
    case True
    with Cons.prems have "default_missing (\<lambda>p g. g) ps g = (ns, g')" by simp
    from Cons.IH [OF this] True show ?thesis by (auto simp: fun_eq_iff)
  next
    case False
    let ?g0 = "g\<lparr>move_choice := (move_choice g)(p \<mapsto> Some ''punch'')\<rparr>"
    obtain ms g2 where r: "default_missing (\<lambda>p g. g) ps ?g0 = (ms, g2)"
      by (cases "default_missing (\<lambda>p g. g) ps ?g0")
    with False Cons.prems have eq: "ns = p # ms" "g' = g2" by (simp_all add: Let_def)
    have hp: "\<And>q. has_pick ?g0 q = (q = p \<or> has_pick g q)" by (simp add: has_pick_def)
    from Cons.IH [OF r] have ih: "set ms = {q \<in> set ps. \<not> has_pick ?g0 q}"
      "g2 = ?g0\<lparr>move_choice := (\<lambda>q. if q \<in> set ps \<and> \<not> has_pick ?g0 q
                                then Some (Some ''punch'') else move_choice ?g0 q)\<rparr>"
      by simp_all
    from ih(1) False have "set ns = {q \<in> set (p # ps). \<not> has_pick g q}"
      unfolding eq hp by auto
    moreover from ih(2) False have "g' = g\<lparr>move_choice := (\<lambda>q. if q \<in> set (p # ps) \<and> \<not> has_pick g q
                                then Some (Some ''punch'') else move_choice g q)\<rparr>"
      unfolding eq hp by (auto simp: fun_eq_iff)
    ultimately show ?thesis by simp
  qed
qed

lemma ex_wait_loop:
  "wait_loop ex_env 0 ex_game =
     (TimedOut, 45, ex_game\<lparr>move_choice := [7 \<mapsto> Some ''kick'', 8 \<mapsto> None]\<rparr>)"
  by (simp add: wait_loop.simps ex_env_def ex_game_def new_game_def has_pick_def timeout_def
        interval_def fun_upd_twist)

lemma ex_wait_and_resolve:
  "wait_and_resolve ex_env (\<lambda>p g. g) ex_game =
     (TimedOut, 45, [8], ex_game\<lparr>move_choice := [7 \<mapsto> Some ''kick'', 8 \<mapsto> Some ''punch'']\<rparr>)"
  by (simp add: wait_and_resolve_def ex_wait_loop)
     (simp add: ex_game_def new_game_def has_pick_def)

subsubsection \<open>The steps keep the registries apart\<close>

lemma start_match_Inr:
  "start_match st group_id p1 p2 msg = Inr st' \<Longrightarrow>
   \<not> in_games st group_id \<and> lobbies st' = lobbies st \<and>
   (\<exists>g. games st' = AList.update group_id g (games st))"
  by (cases msg)
     (auto simp: start_match_def send_group_move_prompt_def Let_def update_conv'
           split: if_splits)

lemma start_match_1538_Inr:
  "start_match_1538 st group_id p1 p2 msg = Inr st' \<Longrightarrow>
   \<not> in_games st group_id \<and> lobbies st' = lobbies st \<and>
   (\<exists>g. games st' = AList.update group_id g (games st))"
  by (cases msg)
     (auto simp: start_match_1538_def send_group_move_prompt_def Let_def update_conv'
           split: if_splits)

lemma send_group_move_prompt_shape:
  "lobbies (send_group_move_prompt st group_id msg) = lobbies st \<and>
   (games (send_group_move_prompt st group_id msg) = games st \<or>
    (in_games st group_id \<and>
     (\<exists>g. games (send_group_move_prompt st group_id msg) = AList.update group_id g (games st))))"
  by (auto simp: send_group_move_prompt_def in_games_def split: option.splits)

lemma in_lobbies_simps:
  "in_lobbies (st\<lparr>lobbies := AList.update v lb (lobbies st)\<rparr>) w = (w = v \<or> in_lobbies st w)"
  "in_lobbies (st\<lparr>lobbies := AList.delete v (lobbies st)\<rparr>) w = (w \<noteq> v \<and> in_lobbies st w)"
  "in_lobbies (st\<lparr>lobbies := AList.map_entry v f (lobbies st)\<rparr>) w = in_lobbies st w"
  "in_lobbies (st\<lparr>games := gs\<rparr>) w = in_lobbies st w"
  "in_lobbies (st\<lparr>user_stats := us\<rparr>) w = in_lobbies st w"
  by (auto simp add: in_lobbies_def update_conv' delete_conv' map_of_map_entry
        simp del: map_of_eq_None_iff split: option.splits)

lemma in_games_simps:
  "in_games (st\<lparr>games := AList.update v g (games st)\<rparr>) w = (w = v \<or> in_games st w)"
  "in_games (st\<lparr>games := AList.delete v (games st)\<rparr>) w = (w \<noteq> v \<and> in_games st w)"
  "in_games (st\<lparr>lobbies := ls\<rparr>) w = in_games st w"
  "in_games (st\<lparr>user_stats := us\<rparr>) w = in_games st w"
  by (auto simp add: in_games_def update_conv' delete_conv'
        simp del: map_of_eq_None_iff split: option.splits)

text \<open>The ways a step changes the two registries.\<close>

lemma inv_lobby_delete:
  "venue_inv st \<Longrightarrow> venue_inv (st\<lparr>lobbies := AList.delete v (lobbies st)\<rparr>)"
  by (simp add: venue_inv_def in_lobbies_simps in_games_simps distinct_delete)

lemma inv_lobby_update:
  "venue_inv st \<Longrightarrow> \<not> in_games st v \<Longrightarrow>
   venue_inv (st\<lparr>lobbies := AList.update v lb (lobbies st)\<rparr>)"
  by (simp add: venue_inv_def in_lobbies_simps in_games_simps distinct_update) blast

lemma inv_lobby_map_entry:
  "venue_inv st \<Longrightarrow> venue_inv (st\<lparr>lobbies := AList.map_entry v f (lobbies st)\<rparr>)"
  by (simp add: venue_inv_def in_lobbies_simps in_games_simps distinct_map_entry)

lemma inv_game_delete:
  "venue_inv st \<Longrightarrow> venue_inv (st\<lparr>games := AList.delete v (games st)\<rparr>)"
  by (simp add: venue_inv_def in_lobbies_simps in_games_simps distinct_delete)

lemma inv_game_update:
  "venue_inv st \<Longrightarrow> \<not> in_lobbies st v \<Longrightarrow>
   venue_inv (st\<lparr>games := AList.update v g (games st)\<rparr>)"
  by (simp add: venue_inv_def in_lobbies_simps in_games_simps distinct_update) blast

lemma inv_user_stats:
  "venue_inv st \<Longrightarrow> venue_inv (st\<lparr>user_stats := us\<rparr>)"
  by (simp add: venue_inv_def in_lobbies_simps in_games_simps)

lemma inv_same_registries:
  assumes "venue_inv st" "lobbies st' = lobbies st" "games st' = games st"
  shows "venue_inv st'"
proof -
  from assms(2,3) have "in_lobbies st' = in_lobbies st" "in_games st' = in_games st"
    by (simp_all add: fun_eq_iff in_lobbies_def in_games_def del: map_of_eq_None_iff)
  with assms show ?thesis by (simp add: venue_inv_def)
qed

lemma in_lobbiesI: "map_of (lobbies st) v = Some lb \<Longrightarrow> in_lobbies st v"
  by (simp add: in_lobbies_def del: map_of_eq_None_iff)

lemma in_gamesI: "map_of (games st) v = Some g \<Longrightarrow> in_games st v"
  by (simp add: in_games_def del: map_of_eq_None_iff)

lemma inv_disjoint:
  "venue_inv st \<Longrightarrow> in_lobbies st v \<Longrightarrow> \<not> in_games st v"
  "venue_inv st \<Longrightarrow> in_games st v \<Longrightarrow> \<not> in_lobbies st v"
  by (simp_all add: venue_inv_def) blast+

lemma cmd_startgame_Inr:
  "cmd_startgame st private group_id uid msg = Inr st' \<Longrightarrow>
   \<not> in_games st group_id \<and> (\<exists>lb. st' = st\<lparr>lobbies := AList.update group_id lb (lobbies st)\<rparr>)"
  by (auto simp: cmd_startgame_def Let_def split: if_splits)

lemma start_match_inv:
  assumes "venue_inv st" "\<not> in_lobbies st group_id"
    and "start_match st group_id p1 p2 msg = Inr st'"
  shows "venue_inv st'"
proof -
  from start_match_Inr [OF assms(3)] obtain g where
    g: "lobbies st' = lobbies st" "games st' = AList.update group_id g (games st)" by blast
  from assms(1,2) have "venue_inv (st\<lparr>games := AList.update group_id g (games st)\<rparr>)"
    by (rule inv_game_update)
  then show ?thesis by (rule inv_same_registries) (simp_all add: g)
qed

lemma start_match_1538_inv:
  assumes "venue_inv st" "\<not> in_lobbies st group_id"
    and "start_match_1538 st group_id p1 p2 msg = Inr st'"
  shows "venue_inv st'"
proof -
  from start_match_1538_Inr [OF assms(3)] obtain g where
    g: "lobbies st' = lobbies st" "games st' = AList.update group_id g (games st)" by blast
  from assms(1,2) have "venue_inv (st\<lparr>games := AList.update group_id g (games st)\<rparr>)"
    by (rule inv_game_update)
  then show ?thesis by (rule inv_same_registries) (simp_all add: g)
qed

lemma not_in_lobbies_after_delete:
  "\<not> in_lobbies (st\<lparr>lobbies := AList.delete v (lobbies st)\<rparr>) v"
  by (simp add: in_lobbies_simps)

lemma lobby_callback_inv:
  assumes "venue_inv st" and "lobby_callback st action group_id host_id user_id msg = (e, st')"
  shows "venue_inv st'"
proof (cases "map_of (lobbies st) group_id")
  case None
  with assms(2) have "st' = st\<lparr>lobbies := AList.delete group_id (lobbies st)\<rparr>"
    by (simp add: lobby_callback_def)
  with assms(1) show ?thesis by (simp add: inv_lobby_delete)
next
  case (Some lb)
  from assms(1) in_lobbiesI [OF Some] have ng: "\<not> in_games st group_id"
    by (rule inv_disjoint)
  let ?st1 = "st\<lparr>lobbies := AList.update group_id
                (lb\<lparr>lobby_players := lobby_players lb @ [user_id]\<rparr>) (lobbies st)\<rparr>"
  let ?st2 = "?st1\<lparr>lobbies := AList.delete group_id (lobbies ?st1)\<rparr>"
  have i1: "venue_inv ?st1" using assms(1) ng by (rule inv_lobby_update)
  then have i2: "venue_inv ?st2" by (rule inv_lobby_delete)
  have nl: "\<not> in_lobbies ?st2 group_id" by (rule not_in_lobbies_after_delete)
  have i3: "venue_inv (st\<lparr>lobbies := AList.delete group_id (lobbies st)\<rparr>)"
    using assms(1) by (rule inv_lobby_delete)
  consider (same) "st' = st" | (del) "st' = st\<lparr>lobbies := AList.delete group_id (lobbies st)\<rparr>"
    | (app) "st' = ?st1" | (pop) "st' = ?st2"
    | (started) "start_match ?st2 group_id host_id user_id msg = Inr st'"
    using assms(2) Some
    by (auto simp: lobby_callback_def Let_def split: if_splits sum.splits)
  then show ?thesis
  proof cases
    case same
    with assms(1) show ?thesis by simp
  next
    case del
    with i3 show ?thesis by simp
  next
    case app
    with i1 show ?thesis by simp
  next
    case pop
    with i2 show ?thesis by simp
  next
    case started
    with i2 nl show ?thesis by (rule start_match_inv)
  qed
qed

lemma text_handlers_inv:
  "cmd_start st private uid awaiting = (r, st', awaiting') \<Longrightarrow> venue_inv st \<Longrightarrow> venue_inv st'"
  "cmd_startcareer st private uid awaiting = (r, st', awaiting') \<Longrightarrow> venue_inv st \<Longrightarrow> venue_inv st'"
  "private_text_handler st private uid mtext awaiting = (r, st', awaiting') \<Longrightarrow>
     venue_inv st \<Longrightarrow> venue_inv st'"
  by (auto simp: cmd_start_def cmd_startcareer_def private_text_handler_def Let_def inv_user_stats
           split: if_splits)

lemma send_group_move_prompt_inv:
  assumes "venue_inv st"
  shows "venue_inv (send_group_move_prompt st group_id msg)"
proof -
  let ?st' = "send_group_move_prompt st group_id msg"
  from send_group_move_prompt_shape [of st group_id msg]
  consider "lobbies ?st' = lobbies st" "games ?st' = games st"
    | g where "lobbies ?st' = lobbies st" "in_games st group_id"
        "games ?st' = AList.update group_id g (games st)"
    by blast
  then show ?thesis
  proof cases
    case 1
    with assms show ?thesis by (rule inv_same_registries)
  next
    case 2
    from assms 2(2) have "\<not> in_lobbies st group_id" by (rule inv_disjoint)
    with assms have "venue_inv (st\<lparr>games := AList.update group_id g (games st)\<rparr>)"
      by (rule inv_game_update)
    then show ?thesis by (rule inv_same_registries) (simp_all add: 2)
  qed
qed

lemma submitMove_shape:
  "submitMove st resolving group_id uid move = (Inr st', ns) \<Longrightarrow>
   lobbies st' = lobbies st \<and> in_games st group_id \<and>
   (\<exists>g'. games st' = AList.update group_id g' (games st))"
  by (auto simp: submitMove_def in_games_def split: option.splits if_splits)

lemma finish_shape:
  "finish st group_id g' a b hA' hB' = (out, st') \<Longrightarrow>
   lobbies st' = lobbies st \<and>
   (games st' = AList.delete group_id (games st) \<or>
    games st' = AList.update group_id g' (games st))"
  by (auto simp: finish_def split: if_splits)

lemma resolve_moves_shape:
  assumes "resolve_moves st group_id = Some (out, st')"
  shows "lobbies st' = lobbies st \<and> in_games st group_id \<and>
     (games st' = AList.delete group_id (games st) \<or>
      (\<exists>g'. games st' = AList.update group_id g' (games st)))"
proof -
  from assms obtain g where g: "map_of (games st) group_id = Some g"
    by (auto simp: resolve_moves_def split: option.splits)
  from assms g obtain st1 g' a b hA' hB' where
    f: "finish st1 group_id g' a b hA' hB' = (out, st')"
    and s: "lobbies st1 = lobbies st" "games st1 = games st"
    by (auto simp: resolve_moves_def Let_def split: list.splits option.splits)
  from finish_shape [OF f] s in_gamesI [OF g] show ?thesis by auto
qed

lemma step_inv: "step st st' \<Longrightarrow> venue_inv st \<Longrightarrow> venue_inv st'"
proof (induction rule: step.induct)
  case (startgame st priv group_id uid msg st')
  from cmd_startgame_Inr [OF startgame.hyps] startgame.prems show ?case
    by (auto intro: inv_lobby_update)
next
  case (startgame_sent st group_id m)
  then show ?case by (rule inv_lobby_map_entry)
next
  case (lobby_cb st action group_id host_id user_id msg e st')
  from lobby_cb.prems lobby_cb.hyps show ?case by (rule lobby_callback_inv)
next
  case (lobby_popped st group_id)
  then show ?case by (rule inv_lobby_delete)
next
  case (join_appended st group_id lb user_id)
  from join_appended.prems in_lobbiesI [OF join_appended.hyps] have "\<not> in_games st group_id"
    by (rule inv_disjoint)
  with join_appended.prems show ?case by (rule inv_lobby_update)
next
  case (join_started group_id st p1 p2 msg st')
  from join_started.prems have "venue_inv (st\<lparr>lobbies := AList.delete group_id (lobbies st)\<rparr>)"
    by (rule inv_lobby_delete)
  then show ?case using not_in_lobbies_after_delete join_started.hyps by (rule start_match_inv)
next
  case (join_started_1538 group_id st p1 p2 msg st')
  from join_started_1538.prems have "venue_inv (st\<lparr>lobbies := AList.delete group_id (lobbies st)\<rparr>)"
    by (rule inv_lobby_delete)
  then show ?case using not_in_lobbies_after_delete join_started_1538.hyps
    by (rule start_match_1538_inv)
next
  case (prompt_sent st group_id msg)
  then show ?case by (rule send_group_move_prompt_inv)
next
  case (start_cmd st priv uid awaiting r st' awaiting')
  then show ?case by (rule text_handlers_inv)
next
  case (startcareer_cmd st priv uid awaiting r st' awaiting')
  then show ?case by (rule text_handlers_inv)
next
  case (private_text st priv uid mtext awaiting r st' awaiting')
  then show ?case by (rule text_handlers_inv)
next
  case (submitted st resolving group_id uid move st' ns)
  from submitMove_shape [OF submitted.hyps] obtain g' where
    s: "lobbies st' = lobbies st" "in_games st group_id"
       "games st' = AList.update group_id g' (games st)" by blast
  from submitted.prems s(2) have "\<not> in_lobbies st group_id" by (rule inv_disjoint)
  with submitted.prems have "venue_inv (st\<lparr>games := AList.update group_id g' (games st)\<rparr>)"
    by (rule inv_game_update)
  then show ?case by (rule inv_same_registries) (simp_all add: s)
next
  case (resolved st group_id out st')
  from resolve_moves_shape [OF resolved.hyps] have
    s: "lobbies st' = lobbies st" "in_games st group_id"
    and c: "games st' = AList.delete group_id (games st) \<or>
            (\<exists>g'. games st' = AList.update group_id g' (games st))" by blast+
  from resolved.prems s(2) have nl: "\<not> in_lobbies st group_id" by (rule inv_disjoint)
  from c show ?case
  proof
    assume d: "games st' = AList.delete group_id (games st)"
    from resolved.prems have "venue_inv (st\<lparr>games := AList.delete group_id (games st)\<rparr>)"
      by (rule inv_game_delete)
    then show ?thesis by (rule inv_same_registries) (simp_all add: s d)
  next
    assume "\<exists>g'. games st' = AList.update group_id g' (games st)"
    then obtain g' where u: "games st' = AList.update group_id g' (games st)" by blast
    from resolved.prems nl have "venue_inv (st\<lparr>games := AList.update group_id g' (games st)\<rparr>)"
      by (rule inv_game_update)
    then show ?thesis by (rule inv_same_registries) (simp_all add: s u)
  qed
next
  case (match_changed st group_id g g')
  from match_changed.prems in_gamesI [OF match_changed.hyps] have "\<not> in_lobbies st group_id"
    by (rule inv_disjoint)
  with match_changed.prems show ?case by (rule inv_game_update)
next
  case (match_removed st group_id)
  then show ?case by (rule inv_game_delete)
next
  case (careers_saved st us)
  then show ?case by (rule inv_user_stats)
qed

lemma reachable_inv: "reachable st \<Longrightarrow> venue_inv st"
proof (induction rule: reachable.induct)
  case (init st)
  then show ?case by (simp add: venue_inv_def in_lobbies_def)
next
  case (next_state st st')
  then show ?case by (simp add: step_inv)
qed

lemma str_7: "str 7 = ''7''"
  by code_simp

lemma ex_startgame:
  "cmd_startgame ex_state False 1 7 None =
     Inr (ex_state\<lparr>lobbies := [(1, \<lparr>host = 7, lobby_players = [7], message_id = None\<rparr>)]\<rparr>)"
  by (simp add: cmd_startgame_def ex_state_def registered_def in_games_def str_7)

lemma ex_join:
  "lobby_callback (ex_state\<lparr>lobbies := [(1, \<lparr>host = 7, lobby_players = [7], message_id = None\<rparr>)]\<rparr>)
      ''join'' 1 7 8 None =
     (None, ex_state\<lparr>games := [(1, new_game ex_state 7 8 (Some 1))]\<rparr>)"
  by (simp add: lobby_callback_def ex_state_def registered_def str_7 str_8 start_match_def
        in_games_def send_group_move_prompt_def new_game_def name_or_default_def Let_def)

subsubsection \<open>The decimal rendering of a player id is injective\<close>

lemma digits_small: "n < 10 \<Longrightarrow> digits n = [char_of (48 + n)]"
  by (subst digits.simps) simp

lemma digits_large:
  "\<not> n < 10 \<Longrightarrow> digits n = digits (n div 10) @ [char_of (48 + n mod 10)]"
  by (subst digits.simps) simp

lemma digits_not_Nil: "digits n \<noteq> []"
  by (cases "n < 10") (simp_all add: digits_small digits_large)

lemma digit_char_inj:
  assumes "i < 10" "j < 10" "char_of (48 + i) = (char_of (48 + j) :: char)"
  shows "i = (j :: nat)"
proof -
  from assms(3) have "(of_char (char_of (48 + i) :: char) :: nat) = of_char (char_of (48 + j) :: char)"
    by simp
  then have "(48 + i) mod 256 = (48 + j) mod 256" by (simp only: of_char_of)
  with assms(1,2) show ?thesis by simp
qed

lemma digit_char_not_minus:
  assumes "i < (10::nat)"
  shows "char_of (48 + i) \<noteq> CHR ''-''"
proof
  assume e: "char_of (48 + i) = CHR ''-''"
  then have "(of_char (char_of (48 + i) :: char) :: nat) = of_char CHR ''-''" by simp
  then have "(48 + i) mod 256 = (45::nat)" by (simp only: of_char_of) simp
  with assms show False by simp
qed

lemma digits_inj: "digits n = digits m \<Longrightarrow> n = m"
proof (induction n arbitrary: m rule: digits.induct)
  case (1 n)
  show ?case
  proof (cases "n < 10")
    case small: True
    show ?thesis
    proof (cases "m < 10")
      case True
      with small "1.prems" show ?thesis by (simp add: digits_small digit_char_inj)
    next
      case False
      with small "1.prems" digits_not_Nil [of "m div 10"] show ?thesis
        by (simp add: digits_small digits_large)
    qed
  next
    case large: False
    show ?thesis
    proof (cases "m < 10")
      case True
      with large "1.prems" digits_not_Nil [of "n div 10"] show ?thesis
        by (simp add: digits_small digits_large)
    next
      case False
      with large "1.prems" have e: "digits (n div 10) = digits (m div 10)"
        and c: "char_of (48 + n mod 10) = (char_of (48 + m mod 10) :: char)"
        by (simp_all add: digits_large)
      from "1.IH" [OF large e] have d: "n div 10 = m div 10" .
      from c have "n mod 10 = m mod 10" by (intro digit_char_inj) simp_all
      with d show ?thesis by (metis div_mult_mod_eq)
    qed
  qed
qed

lemma hd_digits_not_minus: "hd (digits n) \<noteq> CHR ''-''"
proof (induction n rule: digits.induct)
  case (1 n)
  show ?case
  proof (cases "n < 10")
    case True
    then show ?thesis by (simp add: digits_small digit_char_not_minus)
  next
    case False
    with "1.IH" digits_not_Nil [of "n div 10"] show ?thesis
      by (simp add: digits_large)
  qed
qed

lemma str_inj: "str a = str b \<Longrightarrow> a = b"
proof -
  assume e: "str a = str b"
  have neq: "\<And>n m. CHR ''-'' # digits n \<noteq> digits m"
  proof
    fix n m assume "CHR ''-'' # digits n = digits m"
    then have "hd (digits m) = CHR ''-''" by (metis list.sel(1))
    with hd_digits_not_minus show False by blast
  qed
  show ?thesis
  proof (cases "a < 0")
    case na: True
    show ?thesis
    proof (cases "b < 0")
      case True
      with na e have "digits (nat (- a)) = digits (nat (- b))" by (simp add: str_def)
      then have "nat (- a) = nat (- b)" by (rule digits_inj)
      with na True show ?thesis by simp
    next
      case False
      with na e neq show ?thesis by (simp add: str_def)
    qed
  next
    case pa: False
    show ?thesis
    proof (cases "b < 0")
      case True
      with pa e neq [of "nat (- b)" "nat a"] show ?thesis by (simp add: str_def)
    next
      case False
      with pa e have "digits (nat a) = digits (nat b)" by (simp add: str_def)
      then have "nat a = nat b" by (rule digits_inj)
      with pa False show ?thesis by simp
    qed
  qed
qed

subsubsection \<open>The rules of a round\<close>

lemma isReversal_simps:
  "isReversal ''reversal''" "m \<noteq> ''reversal'' \<Longrightarrow> \<not> isReversal m"
  by (simp_all add: isReversal_def)

lemma damage_applied_reversal:
  "isReversal own \<Longrightarrow> damage_applied own opp = 0"
  "\<not> isReversal own \<Longrightarrow> isReversal opp \<Longrightarrow> damage_applied own opp = damageOf own"
  "\<not> isReversal own \<Longrightarrow> \<not> isReversal opp \<Longrightarrow> damage_applied own opp = damageOf opp"
  by (simp_all add: damage_applied_def dealt_def reflected_def)

lemma hp_apply_round:
  "a \<noteq> b \<Longrightarrow> hp (apply_round g a b mA mB hA hB) a = Some (max 0 (hA - damage_applied mA mB))"
  "hp (apply_round g a b mA mB hA hB) b = Some (max 0 (hB - damage_applied mB mA))"
  by (simp_all add: apply_round_def)

text \<open>The first two end-to-end scenarios of the specification (section 8).\<close>

lemma scenario_rko_against_punch:
  "hp (apply_round ex_game 7 8 ''rko'' ''punch'' 200 200) 7 = Some 195 \<and>
   hp (apply_round ex_game 7 8 ''rko'' ''punch'' 200 200) 8 = Some 145 \<and>
   specials_used (account_special ''rko'' ''punch'' fresh_career) = 1 \<and>
   specials_successful (account_special ''rko'' ''punch'' fresh_career) = 1"
  by (simp add: apply_round_def account_special_def damage_applied_def dealt_def reflected_def
        isReversal_def isSpecial_def damageOf_def MOVES_def fresh_career_def)

lemma scenario_rko_against_reversal:
  "hp (apply_round ex_game 7 8 ''rko'' ''reversal'' 200 200) 7 = Some 145 \<and>
   hp (apply_round ex_game 7 8 ''rko'' ''reversal'' 200 200) 8 = Some 200 \<and>
   specials_used (account_special ''rko'' ''reversal'' fresh_career) = 1 \<and>
   specials_successful (account_special ''rko'' ''reversal'' fresh_career) = 0 \<and>
   reversals_left (apply_round ex_game 7 8 ''rko'' ''reversal'' 200 200) 8 = Some 2"
  by (simp add: apply_round_def account_special_def damage_applied_def dealt_def reflected_def
        isReversal_def isSpecial_def damageOf_def MOVES_def fresh_career_def spend_def
        ex_game_def new_game_def MAX_REVERSALS_PER_MATCH_def)

lemma damageOf_rko: "damageOf ''rko'' = 55"
  by (simp add: damageOf_def MOVES_def)

lemma play_keeps_hp:
  assumes "\<exists>hA hB. hp g a = Some hA \<and> hp g b = Some hB \<and> 0 \<le> hA \<and> 0 \<le> hB"
  shows "\<exists>hA hB. hp (play g a b rounds) a = Some hA \<and> hp (play g a b rounds) b = Some hB \<and>
                 0 \<le> hA \<and> 0 \<le> hB"
  using assms
proof (induction rounds arbitrary: g)
  case Nil
  then show ?case by simp
next
  case (Cons r rounds)
  obtain mA mB where r: "r = (mA, mB)" by (cases r)
  from Cons.prems obtain hA hB where h: "hp g a = Some hA" "hp g b = Some hB" by blast
  let ?g = "apply_round g a b mA mB hA hB"
  have "\<exists>hA hB. hp ?g a = Some hA \<and> hp ?g b = Some hB \<and> 0 \<le> hA \<and> 0 \<le> hB"
    by (simp add: apply_round_def)
  from Cons.IH [OF this] show ?case by (simp add: r h)
qed

lemma hp_new_game:
  "\<exists>hA hB. hp (new_game st a b rk) a = Some hA \<and> hp (new_game st a b rk) b = Some hB \<and>
            0 \<le> hA \<and> 0 \<le> hB"
  by (simp add: new_game_def MAX_HP_def)

lemma ex_play:
  "hp (play ex_game 7 8 [(''rko'', ''punch''), (''rko'', ''reversal'')]) 7 = Some 140 \<and>
   hp (play ex_game 7 8 [(''rko'', ''punch''), (''rko'', ''reversal'')]) 8 = Some 145"
  by (simp add: ex_game_def new_game_def MAX_HP_def apply_round_def damage_applied_def
        dealt_def reflected_def isReversal_def damageOf_def MOVES_def)

lemma damage_applied_rko_punch: "damage_applied ''rko'' ''punch'' = 5"
  by (simp add: damage_applied_def dealt_def reflected_def isReversal_def damageOf_def MOVES_def)

lemma map_of_bump:
  "map_of (bump f p us) k = (if k = str p then map_option f (map_of us k) else map_of us k)"
  by (simp add: bump_def map_of_map_entry split: option.splits)

lemma account_special_keeps:
  "wins (account_special own opp c) = wins c"
  "losses (account_special own opp c) = losses c"
  "draws (account_special own opp c) = draws c"
  by (simp_all add: account_special_def)

lemma resolve_moves_eq:
  assumes "map_of (games st) venue = Some g" "players g = [a, b]"
    "pick g a = Some mA" "pick g b = Some mB" "hp g a = Some hA" "hp g b = Some hB"
  shows "resolve_moves st venue =
     Some (finish (st\<lparr>user_stats := bump (account_special mB mA) b
                                      (bump (account_special mA mB) a (user_stats st))\<rparr>)
             venue (apply_round g a b mA mB hA hB) a b
             (max 0 (hA - damage_applied mA mB)) (max 0 (hB - damage_applied mB mA)))"
  using assms by (simp add: resolve_moves_def Let_def)

lemma not_in_games_deleted:
  "\<not> in_games (st\<lparr>user_stats := us, games := AList.delete venue (games st)\<rparr>) venue"
  by (simp add: in_games_def delete_conv' del: map_of_eq_None_iff)

lemma damage_applied_punch_punch: "damage_applied ''punch'' ''punch'' = 5"
  by (simp add: damage_applied_def dealt_def reflected_def isReversal_def damageOf_def MOVES_def)

lemma isSpecial_iff: "isSpecial m = (m = ''suplex'' \<or> m = ''rko'')"
  by (simp add: isSpecial_def MOVES_def)

subsection \<open>Match creation\<close>

text \<open>
  Claim C7.  A newly created match is at round 1, both players have 200 hit points, 4
  specials and 3 reversals left, and neither has a last move or a pick for the round.
  This holds for the copy of \<open>start_match\<close> that writes \<open>"round": 1\<close> and for the last copy,
  which leaves the key out and is read with the default 1.  The match engine has no
  explicit state field: a match awaits moves when it is stored and its picks are empty.
\<close>

theorem start_match_initial_state:
  assumes "\<not> in_games st group_id"
  shows "(\<exists>st' g. start_match st group_id p1 p2 msg = Inr st' \<and>
           map_of (games st') group_id = Some g \<and>
           players g = [p1, p2] \<and> round_no g = 1 \<and>
           hp g p1 = Some 200 \<and> hp g p2 = Some 200 \<and>
           specials_left g p1 = Some 4 \<and> specials_left g p2 = Some 4 \<and>
           reversals_left g p1 = Some 3 \<and> reversals_left g p2 = Some 3 \<and>
           last_move g p1 = Some None \<and> last_move g p2 = Some None \<and>
           move_choice g p1 = Some None \<and> move_choice g p2 = Some None) \<and>
         (\<exists>st' g. start_match_1538 st group_id p1 p2 msg = Inr st' \<and>
           map_of (games st') group_id = Some g \<and>
           players g = [p1, p2] \<and> round_no g = 1 \<and>
           hp g p1 = Some 200 \<and> hp g p2 = Some 200 \<and>
           specials_left g p1 = Some 4 \<and> specials_left g p2 = Some 4 \<and>
           reversals_left g p1 = Some 3 \<and> reversals_left g p2 = Some 3 \<and>
           last_move g p1 = Some None \<and> last_move g p2 = Some None \<and>
           move_choice g p1 = Some None \<and> move_choice g p2 = Some None)"
  using assms
  by (cases msg; simp add: start_match_def start_match_1538_def send_group_move_prompt_def
      map_of_update_same new_game_def round_no_def MAX_HP_def MAX_SPECIALS_PER_MATCH_def
      MAX_REVERSALS_PER_MATCH_def Let_def)

theorem start_match_initial_state_witness:
  "\<not> in_games \<lparr>user_stats = [], lobbies = [], games = []\<rparr> 1 \<and>
   (\<exists>st' g. start_match \<lparr>user_stats = [], lobbies = [], games = []\<rparr> 1 7 8 None = Inr st' \<and>
      map_of (games st') 1 = Some g \<and> players g = [7, 8] \<and> round_no g = 1 \<and>
      hp g 7 = Some 200 \<and> hp g 8 = Some 200 \<and>
      specials_left g 7 = Some 4 \<and> reversals_left g 8 = Some 3 \<and>
      last_move g 7 = Some None \<and> move_choice g 8 = Some None)"
proof -
  have free: "\<not> in_games \<lparr>user_stats = [], lobbies = [], games = []\<rparr> 1"
    by (simp add: in_games_def)
  from start_match_initial_state [OF free, of 7 8 None] free show ?thesis
    by blast
qed

subsection \<open>Collecting the picks of a round\<close>

text \<open>
  Claim C5.  The coroutine calls the resolution exactly once.  It does so at the first poll that
  finds a pick for every player, before the 45th sleep, with no notice and no default; or
  else after 45 sleeps, and then it announces and defaults to \<open>punch\<close> just the players
  that have no pick when the loop reaches them, each once, and the resolution starts with
  a pick for every player.  When nothing else runs while the notices are sent, the
  defaulted players are exactly those without a pick at the deadline, and the other picks
  are left as they are.
\<close>

theorem wait_and_resolve_triggers:
  assumes "only_records_picks send"
  shows "(\<exists>trg waited ns g'.
      wait_and_resolve env send g = (trg, waited, ns, g') \<and>
      all_picked g' \<and> distinct ns \<and>
      (\<forall>i<waited. \<not> all_picked (game_at env 0 g i)) \<and>
      (trg = BothPicked \<longrightarrow>
         waited < 45 \<and> ns = [] \<and> g' = game_at env 0 g waited) \<and>
      (trg = TimedOut \<longrightarrow>
         waited = 45 \<and>
         set ns \<subseteq> {p \<in> set (players (game_at env 0 g 45)). \<not> has_pick (game_at env 0 g 45) p})) \<and>
    (\<forall>waited ns g'.
      wait_and_resolve env (\<lambda>p g. g) g = (TimedOut, waited, ns, g') \<longrightarrow>
        set ns = {p \<in> set (players (game_at env 0 g 45)). \<not> has_pick (game_at env 0 g 45) p} \<and>
        g' = (game_at env 0 g 45)
               \<lparr>move_choice := (\<lambda>q. if q \<in> set (players (game_at env 0 g 45)) \<and>
                                         \<not> has_pick (game_at env 0 g 45) q
                                      then Some (Some ''punch'')
                                      else move_choice (game_at env 0 g 45) q)\<rparr>)"
proof -
  obtain trg w g1 where wl: "wait_loop env 0 g = (trg, w, g1)"
    by (cases "wait_loop env 0 g")
  from wait_loop_spec [OF _ wl] have sp: "g1 = game_at env 0 g w"
      "\<forall>j<w. \<not> all_picked (game_at env 0 g j)"
      "trg = BothPicked \<longrightarrow> w < timeout \<and> all_picked g1"
      "trg = TimedOut \<longrightarrow> w = timeout"
    by auto
  have first: "\<exists>trg waited ns g'.
      wait_and_resolve env send g = (trg, waited, ns, g') \<and>
      all_picked g' \<and> distinct ns \<and>
      (\<forall>i<waited. \<not> all_picked (game_at env 0 g i)) \<and>
      (trg = BothPicked \<longrightarrow>
         waited < 45 \<and> ns = [] \<and> g' = game_at env 0 g waited) \<and>
      (trg = TimedOut \<longrightarrow>
         waited = 45 \<and>
         set ns \<subseteq> {p \<in> set (players (game_at env 0 g 45)). \<not> has_pick (game_at env 0 g 45) p})"
  proof (cases trg)
    case BothPicked
    with wl have "wait_and_resolve env send g = (BothPicked, w, [], g1)"
      by (simp add: wait_and_resolve_def)
    with sp BothPicked show ?thesis by (simp add: timeout_def)
  next
    case TimedOut
    obtain ns g2 where dm: "default_missing send (players g1) g1 = (ns, g2)"
      by (cases "default_missing send (players g1) g1")
    with wl TimedOut have r: "wait_and_resolve env send g = (TimedOut, w, ns, g2)"
      by (simp add: wait_and_resolve_def)
    from default_missing_spec [OF assms dm]
    have d: "players g2 = players g1" "\<forall>p \<in> set (players g1). has_pick g2 p"
      "set ns \<subseteq> {p \<in> set (players g1). \<not> has_pick g1 p}" "distinct ns"
      by simp_all
    from d(1,2) have "all_picked g2" by (simp add: all_picked_def list_all_iff)
    with r sp TimedOut d(3,4) show ?thesis by (simp add: timeout_def)
  qed
  have second: "\<forall>waited ns g'.
      wait_and_resolve env (\<lambda>p g. g) g = (TimedOut, waited, ns, g') \<longrightarrow>
        set ns = {p \<in> set (players (game_at env 0 g 45)). \<not> has_pick (game_at env 0 g 45) p} \<and>
        g' = (game_at env 0 g 45)
               \<lparr>move_choice := (\<lambda>q. if q \<in> set (players (game_at env 0 g 45)) \<and>
                                         \<not> has_pick (game_at env 0 g 45) q
                                      then Some (Some ''punch'')
                                      else move_choice (game_at env 0 g 45) q)\<rparr>"
  proof (intro allI impI)
    fix waited ns g'
    assume a: "wait_and_resolve env (\<lambda>p g. g) g = (TimedOut, waited, ns, g')"
    with wl have t: "trg = TimedOut" and dm: "default_missing (\<lambda>p g. g) (players g1) g1 = (ns, g')"
      by (cases trg; simp add: wait_and_resolve_def split: prod.splits)+
    from sp t have g1: "g1 = game_at env 0 g 45" by (simp add: timeout_def)
    from default_missing_exact [OF dm] show "set ns = {p \<in> set (players (game_at env 0 g 45)). \<not> has_pick (game_at env 0 g 45) p} \<and>
        g' = (game_at env 0 g 45)
               \<lparr>move_choice := (\<lambda>q. if q \<in> set (players (game_at env 0 g 45)) \<and>
                                         \<not> has_pick (game_at env 0 g 45) q
                                      then Some (Some ''punch'')
                                      else move_choice (game_at env 0 g 45) q)\<rparr>"
      unfolding g1 by simp
  qed
  from first second show ?thesis by (rule conjI)
qed

theorem wait_and_resolve_triggers_witness:
  "only_records_picks (\<lambda>p g. g) \<and>
   wait_and_resolve ex_env (\<lambda>p g. g) ex_game =
     (TimedOut, 45, [8], ex_game\<lparr>move_choice := [7 \<mapsto> Some ''kick'', 8 \<mapsto> Some ''punch'']\<rparr>) \<and>
   all_picked (ex_game\<lparr>move_choice := [7 \<mapsto> Some ''kick'', 8 \<mapsto> Some ''punch'']\<rparr>) \<and>
   set [8] = {p \<in> set (players (game_at ex_env 0 ex_game 45)).
                \<not> has_pick (game_at ex_env 0 ex_game 45) p}"
proof -
  have h: "only_records_picks (\<lambda>p g. g)" by (simp add: only_records_picks_def)
  note ev = ex_wait_and_resolve
  from wait_and_resolve_triggers [OF h, of ex_env ex_game]
  have a: "all_picked (ex_game\<lparr>move_choice := [7 \<mapsto> Some ''kick'', 8 \<mapsto> Some ''punch'']\<rparr>)"
    unfolding ev by blast
  from wait_and_resolve_triggers [OF h, of ex_env ex_game]
  have b: "set [8] = {p \<in> set (players (game_at ex_env 0 ex_game 45)).
                \<not> has_pick (game_at ex_env 0 ex_game 45) p}"
    unfolding ev by blast
  from h ev a b show ?thesis by blast
qed

subsection \<open>Round resolution\<close>

text \<open>
  Claim C1.  When exactly one player picks the reversal, that player takes no damage and
  the opponent takes the damage of their own move; when both pick it, neither takes any
  damage.  The hit points after the round follow.
\<close>

theorem reversal_reflects:
  assumes "a \<noteq> b"
  shows
   "(mA = ''reversal'' \<and> mB \<noteq> ''reversal'' \<longrightarrow>
       damage_applied mA mB = 0 \<and> damage_applied mB mA = damageOf mB \<and>
       hp (apply_round g a b mA mB hA hB) a = Some (max 0 (hA - 0)) \<and>
       hp (apply_round g a b mA mB hA hB) b = Some (max 0 (hB - damageOf mB))) \<and>
    (mB = ''reversal'' \<and> mA \<noteq> ''reversal'' \<longrightarrow>
       damage_applied mB mA = 0 \<and> damage_applied mA mB = damageOf mA \<and>
       hp (apply_round g a b mA mB hA hB) b = Some (max 0 (hB - 0)) \<and>
       hp (apply_round g a b mA mB hA hB) a = Some (max 0 (hA - damageOf mA))) \<and>
    (mA = ''reversal'' \<and> mB = ''reversal'' \<longrightarrow>
       damage_applied mA mB = 0 \<and> damage_applied mB mA = 0 \<and>
       hp (apply_round g a b mA mB hA hB) a = Some (max 0 (hA - 0)) \<and>
       hp (apply_round g a b mA mB hA hB) b = Some (max 0 (hB - 0)))"
  using assms
  by (simp add: hp_apply_round damage_applied_reversal isReversal_simps)

theorem reversal_reflects_witness:
  "(7::int) \<noteq> 8 \<and> damage_applied ''reversal'' ''rko'' = 0 \<and>
   damage_applied ''rko'' ''reversal'' = damageOf ''rko'' \<and>
   hp (apply_round ex_game 7 8 ''reversal'' ''rko'' 200 200) 7 = Some 200 \<and>
   hp (apply_round ex_game 7 8 ''reversal'' ''rko'' 200 200) 8 = Some 145"
  using reversal_reflects [of 7 8 "''reversal''" "''rko''" ex_game 200 200]
  by (simp add: damageOf_rko)

text \<open>
  Claim C2.  For a match of two registered players with both picks recorded: when the
  round leaves both pools at 0 or below, the outcome is a draw, the draws of both career
  records go up by one and the venue has no match afterwards; when it leaves exactly one
  pool there, that player loses and the other wins, their losses and wins go up by one,
  and the match is removed as well.
\<close>

theorem knockout_outcome:
  assumes "map_of (games st) venue = Some g" "players g = [a, b]" "a \<noteq> b"
    "pick g a = Some mA" "pick g b = Some mB" "hp g a = Some hA" "hp g b = Some hB"
    "map_of (user_stats st) (str a) = Some ca" "map_of (user_stats st) (str b) = Some cb"
  shows "\<exists>out st' ca' cb'.
     resolve_moves st venue = Some (out, st') \<and>
     map_of (user_stats st') (str a) = Some ca' \<and>
     map_of (user_stats st') (str b) = Some cb' \<and>
     (max 0 (hA - damage_applied mA mB) \<le> 0 \<and> max 0 (hB - damage_applied mB mA) \<le> 0 \<longrightarrow>
        out = Draw \<and> draws ca' = draws ca + 1 \<and> draws cb' = draws cb + 1 \<and>
        \<not> in_games st' venue) \<and>
     (max 0 (hA - damage_applied mA mB) \<le> 0 \<and> \<not> max 0 (hB - damage_applied mB mA) \<le> 0 \<longrightarrow>
        out = Win b a \<and> losses ca' = losses ca + 1 \<and> wins cb' = wins cb + 1 \<and>
        \<not> in_games st' venue) \<and>
     (\<not> max 0 (hA - damage_applied mA mB) \<le> 0 \<and> max 0 (hB - damage_applied mB mA) \<le> 0 \<longrightarrow>
        out = Win a b \<and> wins ca' = wins ca + 1 \<and> losses cb' = losses cb + 1 \<and>
        \<not> in_games st' venue)"
proof -
  from assms(3) have ne: "str a \<noteq> str b" "str b \<noteq> str a" by (auto dest: str_inj)
  note r = resolve_moves_eq [OF assms(1,2,4,5,6,7)]
  let ?hA = "max 0 (hA - damage_applied mA mB)"
  let ?hB = "max 0 (hB - damage_applied mB mA)"
  consider (draw) "?hA \<le> 0" "?hB \<le> 0" | (lossA) "?hA \<le> 0" "\<not> ?hB \<le> 0"
    | (lossB) "\<not> ?hA \<le> 0" "?hB \<le> 0" | (cont) "\<not> ?hA \<le> 0" "\<not> ?hB \<le> 0"
    by blast
  then show ?thesis
  proof cases
    case draw
    then show ?thesis
      unfolding r finish_def
      by (simp add: map_of_bump ne assms(8,9) account_special_keeps not_in_games_deleted)
  next
    case lossA
    then show ?thesis
      unfolding r finish_def
      by (simp add: map_of_bump ne assms(8,9) account_special_keeps not_in_games_deleted)
  next
    case lossB
    then show ?thesis
      unfolding r finish_def
      by (simp add: map_of_bump ne assms(8,9) account_special_keeps not_in_games_deleted)
  next
    case cont
    then show ?thesis
      unfolding r finish_def
      by (simp add: map_of_bump ne assms(8,9))
  qed
qed

theorem knockout_outcome_witness:
  "map_of (games (ex_state\<lparr>games := [(1, ex_last_round)]\<rparr>)) 1 = Some ex_last_round \<and>
   players ex_last_round = [7, 8] \<and> (7::int) \<noteq> 8 \<and>
   pick ex_last_round 7 = Some ''punch'' \<and> pick ex_last_round 8 = Some ''punch'' \<and>
   hp ex_last_round 7 = Some 5 \<and> hp ex_last_round 8 = Some 5 \<and>
   max 0 (5 - damage_applied ''punch'' ''punch'') \<le> 0 \<and>
   (\<exists>st' ca' cb'. resolve_moves (ex_state\<lparr>games := [(1, ex_last_round)]\<rparr>) 1 = Some (Draw, st') \<and>
      map_of (user_stats st') (str 7) = Some ca' \<and> draws ca' = 1 \<and>
      map_of (user_stats st') (str 8) = Some cb' \<and> draws cb' = 1 \<and>
      \<not> in_games st' 1)"
proof -
  let ?st = "ex_state\<lparr>games := [(1, ex_last_round)]\<rparr>"
  let ?ca = "fresh_career\<lparr>name := Some ''Rocky''\<rparr>"
  let ?cb = "fresh_career\<lparr>name := Some ''Apollo''\<rparr>"
  have h1: "map_of (games ?st) 1 = Some ex_last_round" by simp
  have h2: "players ex_last_round = [7, 8]"
    by (simp add: ex_last_round_def ex_game_def new_game_def)
  have h3: "(7::int) \<noteq> 8" by simp
  have h4: "pick ex_last_round 7 = Some ''punch''" "pick ex_last_round 8 = Some ''punch''"
    by (simp_all add: ex_last_round_def pick_def)
  have h6: "hp ex_last_round 7 = Some 5" "hp ex_last_round 8 = Some 5"
    by (simp_all add: ex_last_round_def)
  have h8: "map_of (user_stats ?st) (str 7) = Some ?ca" "map_of (user_stats ?st) (str 8) = Some ?cb"
    by (simp_all add: ex_state_def str_7 str_8)
  have z: "max 0 (5 - damage_applied ''punch'' ''punch'') \<le> 0"
    by (simp add: damage_applied_punch_punch)
  have d: "draws ?ca + 1 = 1" "draws ?cb + 1 = 1" by (simp_all add: fresh_career_def)
  from knockout_outcome [OF h1 h2 h3 h4 h6 h8] z d
  have "\<exists>st' ca' cb'. resolve_moves ?st 1 = Some (Draw, st') \<and>
      map_of (user_stats st') (str 7) = Some ca' \<and> draws ca' = 1 \<and>
      map_of (user_stats st') (str 8) = Some cb' \<and> draws cb' = 1 \<and>
      \<not> in_games st' 1"
    by (metis (no_types, lifting))
  with h1 h2 h3 h4 h6 z show ?thesis by blast
qed

text \<open>
  Claim C3.  After a round the hit points of each player are the maximum of 0 and the
  hit points before minus the damage applied to that player; and whatever rounds are
  played from the start of a match, both players have hit points that are not negative.
\<close>

theorem hit_points_clamped:
  assumes "a \<noteq> b"
  shows "hp (apply_round g a b mA mB hA hB) a = Some (max 0 (hA - damage_applied mA mB)) \<and>
         hp (apply_round g a b mA mB hA hB) b = Some (max 0 (hB - damage_applied mB mA)) \<and>
         (\<exists>hA' hB'. hp (play (new_game st a b rk) a b rounds) a = Some hA' \<and>
                    hp (play (new_game st a b rk) a b rounds) b = Some hB' \<and>
                    0 \<le> hA' \<and> 0 \<le> hB')"
  using assms play_keeps_hp [OF hp_new_game, of st a b rk rounds]
  by (simp add: hp_apply_round)

theorem hit_points_clamped_witness:
  "(7::int) \<noteq> 8 \<and>
   hp (apply_round ex_game 7 8 ''rko'' ''punch'' 3 200) 7 =
     Some (max 0 (3 - damage_applied ''rko'' ''punch'')) \<and>
   damage_applied ''rko'' ''punch'' = 5 \<and>
   hp (play ex_game 7 8 [(''rko'', ''punch''), (''rko'', ''reversal'')]) 7 = Some 140 \<and>
   hp (play ex_game 7 8 [(''rko'', ''punch''), (''rko'', ''reversal'')]) 8 = Some 145"
proof -
  have d: "(7::int) \<noteq> 8" by simp
  from hit_points_clamped [OF d, of ex_game "''rko''" "''punch''" 3 200]
  have "hp (apply_round ex_game 7 8 ''rko'' ''punch'' 3 200) 7 =
     Some (max 0 (3 - damage_applied ''rko'' ''punch''))"
    by blast
  with d damage_applied_rko_punch ex_play show ?thesis by blast
qed

subsection \<open>Submission of a move\<close>

text \<open>
  Claim C4.  A participant submits a move while the round is not being resolved.  If the
  move is the one the player used in the round before and it is \<open>suplex\<close>, \<open>rko\<close> or
  \<open>reversal\<close>, or if it is a special and the player has no special left, or the reversal
  and no reversal left, then the submission is refused as restricted: nothing is
  recorded, since no new state is returned, and the private and the group notice are
  issued.  From the same state any catalog move that is not restricted is accepted and
  recorded as the pick of the player, in the same round.
\<close>

theorem restricted_submission_rejected:
  assumes "map_of (games st) venue = Some g" "playerId \<in> set (players g)"
    "(last_move g playerId = Some (Some moveId) \<and> moveId \<in> {''suplex'', ''rko'', ''reversal''}) \<or>
     (moveId \<in> {''suplex'', ''rko''} \<and> specials_left g playerId = Some 0) \<or>
     (moveId = ''reversal'' \<and> reversals_left g playerId = Some 0)"
  shows "submitMove st False venue playerId moveId =
           (Inl MoveRestricted, [Restriction_dm playerId, Restriction_group venue]) \<and>
         (\<forall>m. map_of MOVES m \<noteq> None \<and> \<not> restricted g playerId m \<longrightarrow>
            (\<exists>st' g'. submitMove st False venue playerId m = (Inr st', []) \<and>
               map_of (games st') venue = Some g' \<and>
               move_choice g' playerId = Some (Some m) \<and> round_no g' = round_no g))"
proof -
  from assms(3) have "restricted g playerId moveId"
    by (auto simp: restricted_def isSpecial_iff isReversal_def)
  moreover from assms(3) have "map_of MOVES moveId \<noteq> None"
    by (auto simp: MOVES_def)
  ultimately have rej: "submitMove st False venue playerId moveId =
           (Inl MoveRestricted, [Restriction_dm playerId, Restriction_group venue])"
    using assms(1,2) by (simp add: submitMove_def)
  have "\<exists>st' g'. submitMove st False venue playerId m = (Inr st', []) \<and>
               map_of (games st') venue = Some g' \<and>
               move_choice g' playerId = Some (Some m) \<and> round_no g' = round_no g"
    if "map_of MOVES m \<noteq> None" "\<not> restricted g playerId m" for m
    using that assms(1,2) by (simp add: submitMove_def update_conv' round_no_def)
  with rej show ?thesis by blast
qed

theorem restricted_submission_rejected_witness:
  "map_of (games (ex_state\<lparr>games := [(1, ex_after_rko)]\<rparr>)) 1 = Some ex_after_rko \<and>
   7 \<in> set (players ex_after_rko) \<and>
   last_move ex_after_rko 7 = Some (Some ''rko'') \<and>
   submitMove (ex_state\<lparr>games := [(1, ex_after_rko)]\<rparr>) False 1 7 ''rko'' =
     (Inl MoveRestricted, [Restriction_dm 7, Restriction_group 1]) \<and>
   map_of MOVES ''punch'' \<noteq> None \<and> \<not> restricted ex_after_rko 7 ''punch'' \<and>
   (\<exists>st' g'. submitMove (ex_state\<lparr>games := [(1, ex_after_rko)]\<rparr>) False 1 7 ''punch'' = (Inr st', []) \<and>
      map_of (games st') 1 = Some g' \<and> move_choice g' 7 = Some (Some ''punch''))"
proof -
  let ?st = "ex_state\<lparr>games := [(1, ex_after_rko)]\<rparr>"
  have h1: "map_of (games ?st) 1 = Some ex_after_rko" by simp
  have h2: "7 \<in> set (players ex_after_rko)"
    by (simp add: ex_after_rko_def ex_game_def new_game_def)
  have l: "last_move ex_after_rko 7 = Some (Some ''rko'')" by (simp add: ex_after_rko_def)
  then have h3: "(last_move ex_after_rko 7 = Some (Some ''rko'') \<and>
        ''rko'' \<in> {''suplex'', ''rko'', ''reversal''}) \<or>
     (''rko'' \<in> {''suplex'', ''rko''} \<and> specials_left ex_after_rko 7 = Some 0) \<or>
     (''rko'' = ''reversal'' \<and> reversals_left ex_after_rko 7 = Some 0)"
    by simp
  have p: "map_of MOVES ''punch'' \<noteq> None" by (simp add: MOVES_def)
  have n: "\<not> restricted ex_after_rko 7 ''punch''"
    by (simp add: restricted_def isSpecial_iff isReversal_def)
  from restricted_submission_rejected [OF h1 h2 h3] p n
  have "submitMove ?st False 1 7 ''rko'' =
     (Inl MoveRestricted, [Restriction_dm 7, Restriction_group 1]) \<and>
   (\<exists>st' g'. submitMove ?st False 1 7 ''punch'' = (Inr st', []) \<and>
      map_of (games st') 1 = Some g' \<and> move_choice g' 7 = Some (Some ''punch''))"
    by blast
  with h1 h2 l p n show ?thesis by blast
qed

subsection \<open>Opening a lobby\<close>

text \<open>
  Claim C6, as amended.  In a group chat \<open>cmd_startgame\<close> refuses with \<open>NotRegistered\<close>
  when the host has no career name; this check comes first.  A registered host is refused
  with \<open>AlreadyActive\<close> when the venue has an active match.  Otherwise the command
  succeeds, whether or not the venue already has a lobby: the venue's lobby is then the
  new one, with the host as its only participant, and nothing else changes.
\<close>

theorem cmd_startgame_outcomes:
  "(\<not> registered st uid \<longrightarrow> cmd_startgame st False group_id uid msg = Inl NotRegistered) \<and>
   (registered st uid \<and> in_games st group_id \<longrightarrow>
      cmd_startgame st False group_id uid msg = Inl AlreadyActive) \<and>
   (registered st uid \<and> \<not> in_games st group_id \<longrightarrow>
      (\<exists>st' lb. cmd_startgame st False group_id uid msg = Inr st' \<and>
         map_of (lobbies st') group_id = Some lb \<and>
         host lb = uid \<and> lobby_players lb = [uid] \<and> message_id lb = msg \<and>
         (\<forall>v. v \<noteq> group_id \<longrightarrow> map_of (lobbies st') v = map_of (lobbies st) v) \<and>
         games st' = games st \<and> user_stats st' = user_stats st))"
  by (cases msg) (simp_all add: cmd_startgame_def Let_def update_conv')

theorem cmd_startgame_outcomes_witness:
  "registered \<lparr>user_stats = [(''8'', fresh_career\<lparr>name := Some ''Rocky''\<rparr>)],
      lobbies = [], games = []\<rparr> 8 \<and>
   \<not> in_games \<lparr>user_stats = [(''8'', fresh_career\<lparr>name := Some ''Rocky''\<rparr>)],
      lobbies = [], games = []\<rparr> 5 \<and>
   (\<exists>st' lb. cmd_startgame \<lparr>user_stats = [(''8'', fresh_career\<lparr>name := Some ''Rocky''\<rparr>)],
      lobbies = [], games = []\<rparr> False 5 8 (Some 99) = Inr st' \<and>
      map_of (lobbies st') 5 = Some lb \<and> host lb = 8 \<and> lobby_players lb = [8])"
proof -
  let ?st = "\<lparr>user_stats = [(''8'', fresh_career\<lparr>name := Some ''Rocky''\<rparr>)],
      lobbies = [], games = []\<rparr>"
  have r: "registered ?st 8" by (simp add: registered_def str_8)
  have g: "\<not> in_games ?st 5" by (simp add: in_games_def)
  from cmd_startgame_outcomes [of ?st 8 5 "Some 99"] r g show ?thesis by blast
qed

text \<open>
  The venue 1 has a lobby opened by player 7 and no match; the registered player 8 opens a
  lobby there.  The command does not refuse: it replaces the lobby of player 7.
\<close>

theorem open_lobby_over_lobby_counterexample:
  "in_lobbies
     \<lparr>user_stats = [(''8'', fresh_career\<lparr>name := Some ''Rocky''\<rparr>)],
      lobbies = [(1, \<lparr>host = 7, lobby_players = [7], message_id = None\<rparr>)],
      games = []\<rparr> 1 \<and>
   cmd_startgame
     \<lparr>user_stats = [(''8'', fresh_career\<lparr>name := Some ''Rocky''\<rparr>)],
      lobbies = [(1, \<lparr>host = 7, lobby_players = [7], message_id = None\<rparr>)],
      games = []\<rparr> False 1 8 None
   = Inr \<lparr>user_stats = [(''8'', fresh_career\<lparr>name := Some ''Rocky''\<rparr>)],
      lobbies = [(1, \<lparr>host = 8, lobby_players = [8], message_id = None\<rparr>)],
      games = []\<rparr>"
  by (simp add: in_lobbies_def cmd_startgame_def registered_def in_games_def str_8)

subsection \<open>One match per venue, and never a lobby beside it\<close>

text \<open>
  Claim C8.  In every state that the bot can reach, a venue has at most one match, and no
  venue has a lobby and a match at the same time: \<open>cmd_startgame\<close> opens no lobby where a
  match is active, and \<open>lobby_callback\<close> removes the lobby before \<open>start_match\<close> stores the
  match.
\<close>

theorem venue_exclusive:
  assumes "reachable st"
  shows "distinct (map fst (games st)) \<and> (\<forall>v. \<not> (in_lobbies st v \<and> in_games st v))"
  using reachable_inv [OF assms] by (simp add: venue_inv_def)

theorem venue_exclusive_witness:
  "reachable (ex_state\<lparr>games := [(1, new_game ex_state 7 8 (Some 1))]\<rparr>) \<and>
   in_games (ex_state\<lparr>games := [(1, new_game ex_state 7 8 (Some 1))]\<rparr>) 1 \<and>
   \<not> in_lobbies (ex_state\<lparr>games := [(1, new_game ex_state 7 8 (Some 1))]\<rparr>) 1 \<and>
   distinct (map fst (games (ex_state\<lparr>games := [(1, new_game ex_state 7 8 (Some 1))]\<rparr>)))"
proof -
  let ?st1 = "ex_state\<lparr>lobbies := [(1, \<lparr>host = 7, lobby_players = [7], message_id = None\<rparr>)]\<rparr>"
  let ?st2 = "ex_state\<lparr>games := [(1, new_game ex_state 7 8 (Some 1))]\<rparr>"
  have "reachable ex_state" by (rule reachable.init) (simp_all add: ex_state_def)
  then have "reachable ?st1" using step.startgame [OF ex_startgame] by (rule reachable.next_state)
  then have r: "reachable ?st2" using step.lobby_cb [OF ex_join] by (rule reachable.next_state)
  have g: "in_games ?st2 1" by (simp add: in_games_def)
  from venue_exclusive [OF r] g r show ?thesis by blast
qed

subsection \<open>Registration and rename\<close>

text \<open>
  Claim C9.  A user who is asked for a name sends a text in a private chat; the candidate
  name is the text without surrounding whitespace.  The handler rejects it exactly when it
  is empty, longer than 16 characters, or equal up to case to the registered name of
  another player, and then leaves the state as it is.  Otherwise it answers
  \<open>Registered\<close> and the career record of the user carries the candidate name; the records
  of the other players are untouched.
\<close>

theorem register_or_rename:
  fixes st :: state and uid :: int and mtext :: "string option"
  defines "nm \<equiv> strip (case mtext of None \<Rightarrow> [] | Some t \<Rightarrow> t)"
  defines "res \<equiv> private_text_handler st True uid mtext True"
  defines "rejected \<equiv> fst res \<in> {Name_empty, Name_too_long, Name_taken}"
  shows "(rejected \<longleftrightarrow>
            nm = [] \<or> 16 < length nm \<or>
            (\<exists>k info n. (k, info) \<in> set (user_stats st) \<and> k \<noteq> str uid \<and>
                         name info = Some n \<and> lower n = lower nm)) \<and>
         (rejected \<longrightarrow> fst (snd res) = st) \<and>
         (\<not> rejected \<longrightarrow>
            fst res = Registered nm \<and>
            (\<exists>info. map_of (user_stats (fst (snd res))) (str uid) = Some info \<and>
                     name info = Some nm) \<and>
            (\<forall>k. k \<noteq> str uid \<longrightarrow>
               map_of (user_stats (fst (snd res))) k = map_of (user_stats st) k))"
proof -
  have res: "res =
     (if nm = [] then (Name_empty, st, True)
      else if 16 < length nm then (Name_too_long, st, True)
      else if taken st (str uid) nm then (Name_taken, st, True)
      else (Registered nm, st\<lparr>user_stats := set_name (str uid) nm (user_stats st)\<rparr>, False))"
    unfolding res_def nm_def by (simp add: private_text_handler_awaiting Let_def)
  consider (empty) "nm = []" | (long) "nm \<noteq> []" "16 < length nm"
    | (taken) "nm \<noteq> []" "\<not> 16 < length nm" "taken st (str uid) nm"
    | (ok) "nm \<noteq> []" "\<not> 16 < length nm" "\<not> taken st (str uid) nm"
    by blast
  then show ?thesis
  proof cases
    case empty
    then show ?thesis by (simp add: rejected_def res)
  next
    case long
    then show ?thesis by (simp add: rejected_def res)
  next
    case taken
    with taken_iff [of nm st "str uid"] show ?thesis by (simp add: rejected_def res)
  next
    case ok
    with taken_iff [of nm st "str uid"] show ?thesis
      by (simp add: rejected_def res map_of_set_name map_of_set_name_other)
  qed
qed

theorem register_or_rename_witness:
  "fst (private_text_handler
     \<lparr>user_stats = [(''8'', fresh_career\<lparr>name := Some ''Rocky''\<rparr>)], lobbies = [], games = []\<rparr>
     True 9 (Some ''  Ali '') True) \<notin> {Name_empty, Name_too_long, Name_taken} \<and>
   strip ''  Ali '' = ''Ali'' \<and>
   (\<exists>info. map_of (user_stats (fst (snd (private_text_handler
     \<lparr>user_stats = [(''8'', fresh_career\<lparr>name := Some ''Rocky''\<rparr>)], lobbies = [], games = []\<rparr>
     True 9 (Some ''  Ali '') True)))) (str 9) = Some info \<and>
     name info = Some (strip (case Some ''  Ali '' of None \<Rightarrow> [] | Some t \<Rightarrow> t)))"
proof -
  let ?st = "\<lparr>user_stats = [(''8'', fresh_career\<lparr>name := Some ''Rocky''\<rparr>)], lobbies = [], games = []\<rparr>"
  have s: "strip ''  Ali '' = ''Ali''" by code_simp
  have r: "fst (private_text_handler ?st True 9 (Some ''  Ali '') True)
             \<notin> {Name_empty, Name_too_long, Name_taken}"
    by (simp add: ex9_eval)
  from register_or_rename [of ?st 9 "Some ''  Ali ''"] r s show ?thesis
    by blast
qed

subsection \<open>Career statistics\<close>

text \<open>
  Claim C10.  Neither the win percentage nor the special-success rate divides by zero:
  with no match played the win percentage is 0.0, and with no special used the rate is
  0.0.
\<close>

theorem stats_never_divide_by_zero:
  "win_pct info \<noteq> Inl ZeroDivisionError \<and>
   sp_rate info \<noteq> Inl ZeroDivisionError \<and>
   (wins info + losses info + draws info = 0 \<longrightarrow> win_pct info = Inr 0) \<and>
   (specials_used info = 0 \<longrightarrow> sp_rate info = Inr 0)"
  by (simp add: win_pct_def sp_rate_def pct_no_zero_division Let_def) (simp add: pct_def)

theorem stats_never_divide_by_zero_witness:
  "wins fresh_career + losses fresh_career + draws fresh_career = 0 \<and>
   specials_used fresh_career = 0 \<and>
   win_pct fresh_career = Inr 0 \<and> sp_rate fresh_career = Inr 0 \<and>
   win_pct fresh_career \<noteq> Inl ZeroDivisionError \<and>
   sp_rate fresh_career \<noteq> Inl ZeroDivisionError"
  using stats_never_divide_by_zero [of fresh_career]
  by (simp add: fresh_career_def)

end
